theory Spec2Isabelle
  imports Complex_Main "HOL-Library.Word" "HOL-Library.Sublist" "HOL-Library.Multiset"
    "HOL-Library.List_Lexorder"
begin

section \<open>JavaScript strings\<close>

text \<open>
  A JavaScript string is a sequence of UTF-16 code units; \<open>length\<close>, indexing,
  \<open>substring\<close>, \<open>includes\<close>, \<open>split\<close> and the regular expressions of the program
  (none has the \<open>u\<close> flag) all work on code units. ASCII text is written with \<open>js\<close>,
  other text as the list of its code units.
\<close>

type_synonym js_char = "16 word"
type_synonym js_string = "js_char list"

definition js :: "string \<Rightarrow> js_string" where
  "js s = map of_char s"

text \<open>
  The characters \<open>trim\<close>, \<open>trimEnd\<close> and the class \<open>\s\<close> remove or match: ECMAScript's
  WhiteSpace and LineTerminator code points.
\<close>

definition isWhiteSpace :: "js_char \<Rightarrow> bool" where
  "isWhiteSpace c \<longleftrightarrow>
     c \<in> set [0x0009, 0x000A, 0x000B, 0x000C, 0x000D, 0x0020, 0x00A0, 0x1680,
               0x2028, 0x2029, 0x202F, 0x205F, 0x3000, 0xFEFF]
     \<or> (0x2000 \<le> c \<and> c \<le> 0x200A)"

definition trimStart :: "js_string \<Rightarrow> js_string" where
  "trimStart s = dropWhile isWhiteSpace s"

definition trimEnd :: "js_string \<Rightarrow> js_string" where
  "trimEnd s = rev (dropWhile isWhiteSpace (rev s))"

definition trim :: "js_string \<Rightarrow> js_string" where
  "trim s = trimEnd (trimStart s)"

section \<open>Content normalizer: \<open>removeCommentsFromLine\<close>\<close>

text \<open>
  The body of the \<open>for\<close> loop up to the comment test: the \<open>if\<close> / \<open>else if\<close> that
  updates \<open>in_single_quote\<close> and \<open>in_double_quote\<close> at index \<open>i\<close>.
  \<open>0x27\<close> is the single quote, \<open>0x22\<close> the double quote, \<open>0x5C\<close> the backslash
  and \<open>0x23\<close> the hash sign.
\<close>

definition quote_update :: "js_string \<Rightarrow> nat \<Rightarrow> bool \<times> bool \<Rightarrow> bool \<times> bool" where
  "quote_update line i st =
     (case st of (in_single_quote, in_double_quote) \<Rightarrow>
        if line ! i = 0x27 \<and> \<not> in_double_quote then
          (if i = 0 \<or> line ! (i - 1) \<noteq> 0x5C
           then (\<not> in_single_quote, in_double_quote)
           else (in_single_quote, in_double_quote))
        else if line ! i = 0x22 \<and> \<not> in_single_quote then
          (if i = 0 \<or> line ! (i - 1) \<noteq> 0x5C
           then (in_single_quote, \<not> in_double_quote)
           else (in_single_quote, in_double_quote))
        else (in_single_quote, in_double_quote))"

function removeComments_loop :: "js_string \<Rightarrow> nat \<Rightarrow> bool \<times> bool \<Rightarrow> js_string" where
  "removeComments_loop line i st =
     (if i < length line then
        (let st' = quote_update line i st in
         if line ! i = 0x23 \<and> \<not> fst st' \<and> \<not> snd st'
         then trimEnd (take i line)
         else removeComments_loop line (i + 1) st')
      else line)"
  by pat_completeness auto
termination
  by (relation "measure (\<lambda>(line, i, st). length line - i)") auto

declare removeComments_loop.simps [simp del]

definition removeCommentsFromLine :: "js_string \<Rightarrow> js_string" where
  "removeCommentsFromLine line = removeComments_loop line 0 (False, False)"

subsection \<open>The normalizer as the specification words it\<close>

text \<open>
  \<open>spec_flags line i\<close> are the two flags (inside single quotes, inside double quotes)
  after the first \<open>i\<close> characters: a quote character toggles its own flag only when the
  other flag is not set and the previous character is not a backslash.
  \<open>spec_comment_start line i\<close> says that position \<open>i\<close> holds a hash sign while both
  flags are false, and \<open>spec_normalize\<close> cuts the line at the first such position.
\<close>

primrec spec_flags :: "js_string \<Rightarrow> nat \<Rightarrow> bool \<times> bool" where
  "spec_flags line 0 = (False, False)"
| "spec_flags line (Suc i) =
     (let s = fst (spec_flags line i); d = snd (spec_flags line i);
          unescaped = (i = 0 \<or> line ! (i - 1) \<noteq> 0x5C)
      in (if line ! i = 0x27 \<and> \<not> d \<and> unescaped then \<not> s else s,
          if line ! i = 0x22 \<and> \<not> s \<and> unescaped then \<not> d else d))"

definition spec_comment_start :: "js_string \<Rightarrow> nat \<Rightarrow> bool" where
  "spec_comment_start line i \<longleftrightarrow>
     line ! i = 0x23 \<and> spec_flags line (Suc i) = (False, False)"

definition spec_normalize :: "js_string \<Rightarrow> js_string" where
  "spec_normalize line =
     (case List.find (spec_comment_start line) [0..<length line] of
        None \<Rightarrow> line
      | Some i \<Rightarrow> trimEnd (take i line))"

section \<open>Files\<close>

text \<open>
  The objects the file functions pass around: every one has a \<open>path\<close>; a descriptor of
  the repository tree adds the blob's \<open>sha\<close>, a fetched file its normalized \<open>content\<close>.
\<close>

record file_path =
  path :: js_string

record file_meta = file_path +
  sha :: js_string

record fetched_file = file_path +
  content :: js_string

text \<open>\<open>Array.prototype.join\<close> and the conversion of a non-negative integer to a string.\<close>

fun join :: "js_string \<Rightarrow> js_string list \<Rightarrow> js_string" where
  "join sep [] = []"
| "join sep [x] = x"
| "join sep (x # y # ys) = x @ sep @ join sep (y # ys)"

definition digit :: "nat \<Rightarrow> js_char" where
  "digit d = of_nat (48 + d)"

fun toString :: "nat \<Rightarrow> js_string" where
  "toString n = (if n < 10 then [digit n] else toString (n div 10) @ [digit (n mod 10)])"

declare toString.simps [simp del]

text \<open>\<open>a || b\<close> on an optional string: \<open>undefined\<close> and the empty string are falsy.\<close>

definition or_else :: "js_string option \<Rightarrow> js_string \<Rightarrow> js_string" where
  "or_else a b = (case a of None \<Rightarrow> b | Some s \<Rightarrow> if s = [] then b else s)"

text \<open>A string taking part in a concatenation or a template: \<open>undefined\<close> prints as such.\<close>

definition str :: "js_string option \<Rightarrow> js_string" where
  "str a = (case a of None \<Rightarrow> js ''undefined'' | Some s \<Rightarrow> s)"

section \<open>File prioritizer: \<open>sortFilesByPriority\<close>\<close>

text \<open>
  \<open>String.prototype.toLowerCase\<close> on the ASCII letters. Unicode maps no code unit
  outside ASCII to one of the letters of \<open>main.py\<close> (U+0130 becomes \<open>i\<close> followed by
  U+0307, which no \<open>n\<close> can follow directly), so the test
  \<open>path.toLowerCase().includes("main.py")\<close>, the only use the program makes of
  \<open>toLowerCase\<close>, has the same value under this mapping.
\<close>

definition toLowerCase :: "js_string \<Rightarrow> js_string" where
  "toLowerCase s = map (\<lambda>c. if 0x41 \<le> c \<and> c \<le> 0x5A then c + 0x20 else c) s"

text \<open>\<open>String.prototype.includes\<close>.\<close>

fun js_includes :: "js_string \<Rightarrow> js_string \<Rightarrow> bool" where
  "js_includes [] sub \<longleftrightarrow> sub = []"
| "js_includes (x # xs) sub \<longleftrightarrow> prefix sub (x # xs) \<or> js_includes xs sub"

text \<open>\<open>s.split(c)\<close> for a separator of one character.\<close>

fun split :: "js_char \<Rightarrow> js_string \<Rightarrow> js_string list" where
  "split c [] = [[]]"
| "split c (x # xs) =
     (if x = c then [] # split c xs
      else (case split c xs of [] \<Rightarrow> [[x]] | y # ys \<Rightarrow> (x # y) # ys))"

definition isMain :: "'a file_path_scheme \<Rightarrow> bool" where
  "isMain a = js_includes (toLowerCase (path a)) (js ''main.py'')"

definition depth :: "'a file_path_scheme \<Rightarrow> nat" where
  "depth a = length (split 0x2F (path a))"

text \<open>
  The comparison function handed to \<open>sort\<close>. \<open>localeCompare\<close> is the host's collation of
  two strings (negative, zero or positive); it depends on the runtime's locale data and
  is a parameter here.
\<close>

definition compareFiles ::
  "(js_string \<Rightarrow> js_string \<Rightarrow> int) \<Rightarrow> 'a file_path_scheme \<Rightarrow> 'a file_path_scheme \<Rightarrow> int" where
  "compareFiles localeCompare a b =
     (let isAMain = isMain a; isBMain = isMain b in
      if isAMain \<noteq> isBMain then (if isAMain then - 1 else 1)
      else
        (let aDepth = depth a; bDepth = depth b in
         if aDepth \<noteq> bDepth then int aDepth - int bDepth
         else localeCompare (path a) (path b)))"

text \<open>
  \<open>Array.prototype.sort\<close> with a comparison function: ECMAScript requires the sort to
  be stable, and with a consistent comparison function the result is the one stable
  ordering of the elements. It is modelled by insertion sort: each element goes in front
  of the first element it does not follow.
\<close>

fun insert_by :: "('a \<Rightarrow> 'a \<Rightarrow> int) \<Rightarrow> 'a \<Rightarrow> 'a list \<Rightarrow> 'a list" where
  "insert_by cmp x [] = [x]"
| "insert_by cmp x (y # ys) = (if cmp x y \<le> 0 then x # y # ys else y # insert_by cmp x ys)"

definition sort_by :: "('a \<Rightarrow> 'a \<Rightarrow> int) \<Rightarrow> 'a list \<Rightarrow> 'a list" where
  "sort_by cmp xs = foldr (insert_by cmp) xs []"

definition sortFilesByPriority ::
  "(js_string \<Rightarrow> js_string \<Rightarrow> int) \<Rightarrow> 'a file_path_scheme list \<Rightarrow> 'a file_path_scheme list" where
  "sortFilesByPriority localeCompare files = sort_by (compareFiles localeCompare) files"

subsection \<open>The priority order as the specification words it\<close>

text \<open>
  A path denotes the entry-point file when its file name, the part after the last
  separator, is \<open>main.py\<close>, in any letter case. A comparison function is consistent when
  it orders any two strings one way or the other and is transitive. \<open>spec_before\<close> is
  the order of the specification: entry-point files first, then fewer path separators
  first, then the path comparison.
\<close>

definition denotes_entry_point :: "js_string \<Rightarrow> bool" where
  "denotes_entry_point p \<longleftrightarrow> last (split 0x2F (toLowerCase p)) = js ''main.py''"

definition consistent :: "(js_string \<Rightarrow> js_string \<Rightarrow> int) \<Rightarrow> bool" where
  "consistent localeCompare \<longleftrightarrow>
     (\<forall>a b. localeCompare a b \<le> 0 \<or> localeCompare b a \<le> 0) \<and>
     (\<forall>a b. (localeCompare a b = 0) = (localeCompare b a = 0)) \<and>
     (\<forall>a b c. localeCompare a b \<le> 0 \<and> localeCompare b c \<le> 0 \<longrightarrow> localeCompare a c \<le> 0)"

definition separators :: "'a file_path_scheme \<Rightarrow> nat" where
  "separators a = count_list (path a) 0x2F"

definition spec_before ::
  "(js_string \<Rightarrow> js_string \<Rightarrow> int) \<Rightarrow> 'a file_path_scheme \<Rightarrow> 'a file_path_scheme \<Rightarrow> bool" where
  "spec_before localeCompare a b \<longleftrightarrow>
     (denotes_entry_point (path a) \<and> \<not> denotes_entry_point (path b)) \<or>
     (denotes_entry_point (path a) = denotes_entry_point (path b) \<and>
       (separators a < separators b \<or>
        (separators a = separators b \<and> localeCompare (path a) (path b) \<le> 0)))"

text \<open>Comparison of the code units, as an instance of \<open>localeCompare\<close>.\<close>

definition codeUnitCompare :: "js_string \<Rightarrow> js_string \<Rightarrow> int" where
  "codeUnitCompare a b = (if a = b then 0 else if a < b then - 1 else 1)"

section \<open>File selection planner: \<open>selectAndFetchFilesForReview\<close>\<close>

definition MAX_FILES_TO_REVIEW :: nat where
  "MAX_FILES_TO_REVIEW = 15"

definition TOKEN_ESTIMATION_RATIO :: rat where
  "TOKEN_ESTIMATION_RATIO = 0.25"

subsection \<open>Numbers\<close>

text \<open>
  JavaScript numbers are IEEE 754 doubles. String lengths and token counts are integers
  far below \<open>2 ^ 53\<close>; on them addition, the product with \<open>0.25\<close> and \<open>Math.ceil\<close> are
  exact, and they are computed here in \<open>int\<close> and \<open>rat\<close>. The literal \<open>0.7\<close> is not a
  double: it denotes the nearest one, \<open>6305039478318694 / 2 ^ 53\<close>, and the product
  \<open>maxInputTokens * 0.7\<close> is the exact product rounded to 53 significant bits, ties to
  even. \<open>maxInputTokens\<close> is an integer (the configuration reads it with \<open>parseInt\<close>);
  the product of an integer double with \<open>0.7\<close> neither overflows nor is subnormal.
\<close>

function bit_length :: "int \<Rightarrow> nat" where
  "bit_length n = (if n \<le> 0 then 0 else Suc (bit_length (n div 2)))"
  by pat_completeness auto
termination
  by (relation "measure nat") auto

declare bit_length.simps [simp del]

definition round_half_even :: "int \<Rightarrow> nat \<Rightarrow> int" where
  "round_half_even n k =
     (let q = n div 2 ^ k; r = n mod 2 ^ k in
      if 2 * r < 2 ^ k then q
      else if 2 * r > 2 ^ k then q + 1
      else if even q then q else q + 1)"

definition round_53_bits :: "int \<Rightarrow> int" where
  "round_53_bits n = (let k = bit_length n - 53 in round_half_even n k * 2 ^ k)"

definition times_0_7 :: "int \<Rightarrow> rat" where
  "times_0_7 m = of_int (sgn m * round_53_bits (\<bar>m\<bar> * 6305039478318694)) / 2 ^ 53"

subsection \<open>The loop\<close>

text \<open>
  The content of a fetched blob after decoding: split into lines, comments removed from
  each line, blank lines dropped, joined again.
\<close>

definition normalizeContent :: "js_string \<Rightarrow> js_string" where
  "normalizeContent decoded =
     join [0x000A]
       (filter (\<lambda>line. trim line \<noteq> []) (map removeCommentsFromLine (split 0x000A decoded)))"

record selection =
  selected :: "fetched_file list"
  totalEstimatedTokens :: int

text \<open>
  One iteration of the \<open>for\<close> loop on \<open>fileMeta\<close>; \<open>None\<close> is \<open>break\<close>. \<open>getBlob\<close> stands
  for the \<open>try\<close> block's request and decoding: it gives the decoded content of the
  file's blob, or \<open>None\<close> when the request or the decoding throws, in which case the
  \<open>catch\<close> block logs the error and the loop goes on with the next file.
\<close>

definition select_file ::
  "int \<Rightarrow> int \<Rightarrow> (file_meta \<Rightarrow> js_string option) \<Rightarrow> rat \<Rightarrow> selection \<Rightarrow> file_meta
     \<Rightarrow> selection option" where
  "select_file mainPromptTokens regularPromptTokens getBlob tokenLimit st fileMeta =
     (if length (selected st) \<ge> MAX_FILES_TO_REVIEW then None
      else case getBlob fileMeta of
        None \<Rightarrow> Some st
      | Some blob \<Rightarrow>
          (let content = normalizeContent blob;
               promptTokens = (if js_includes (toLowerCase (path fileMeta)) (js ''main.py'')
                               then mainPromptTokens else regularPromptTokens);
               estimatedTokens =
                 \<lceil>of_nat (length content + length (path fileMeta)) * TOKEN_ESTIMATION_RATIO
                    + of_int promptTokens\<rceil>
           in if of_int (totalEstimatedTokens st + estimatedTokens) > tokenLimit then None
              else Some \<lparr>selected = selected st @ [\<lparr>path = path fileMeta, content = content\<rparr>],
                         totalEstimatedTokens = totalEstimatedTokens st + estimatedTokens\<rparr>))"

fun select_loop :: "(selection \<Rightarrow> file_meta \<Rightarrow> selection option) \<Rightarrow> selection \<Rightarrow> file_meta list
     \<Rightarrow> selection" where
  "select_loop step st [] = st"
| "select_loop step st (fileMeta # files) =
     (case step st fileMeta of None \<Rightarrow> st | Some st' \<Rightarrow> select_loop step st' files)"

text \<open>
  The planner, with the two prompt templates of \<open>prompts.js\<close> as parameters.
  \<open>select_pass\<close> is the state the loop ends in, \<open>selectAndFetchFilesForReview\<close> the
  list it returns.
\<close>

definition select_pass ::
  "js_string \<Rightarrow> js_string \<Rightarrow> (file_meta \<Rightarrow> js_string option) \<Rightarrow> file_meta list \<Rightarrow> int
     \<Rightarrow> selection" where
  "select_pass MAIN_FILE_PROMPT REGULAR_FILE_PROMPT getBlob files maxInputTokens =
     (let tokenLimit = times_0_7 maxInputTokens;
          mainPromptTokens = \<lceil>of_nat (length MAIN_FILE_PROMPT) * TOKEN_ESTIMATION_RATIO\<rceil>;
          regularPromptTokens = \<lceil>of_nat (length REGULAR_FILE_PROMPT) * TOKEN_ESTIMATION_RATIO\<rceil>
      in select_loop (select_file mainPromptTokens regularPromptTokens getBlob tokenLimit)
           \<lparr>selected = [], totalEstimatedTokens = 0\<rparr> files)"

definition selectAndFetchFilesForReview ::
  "js_string \<Rightarrow> js_string \<Rightarrow> (file_meta \<Rightarrow> js_string option) \<Rightarrow> file_meta list \<Rightarrow> int
     \<Rightarrow> fetched_file list" where
  "selectAndFetchFilesForReview MAIN_FILE_PROMPT REGULAR_FILE_PROMPT getBlob files maxInputTokens =
     selected (select_pass MAIN_FILE_PROMPT REGULAR_FILE_PROMPT getBlob files maxInputTokens)"

text \<open>The states of the loop in the order it goes through them, the initial one first.\<close>

fun select_states :: "(selection \<Rightarrow> file_meta \<Rightarrow> selection option) \<Rightarrow> selection
     \<Rightarrow> file_meta list \<Rightarrow> selection list" where
  "select_states step st [] = [st]"
| "select_states step st (fileMeta # files) =
     st # (case step st fileMeta of None \<Rightarrow> [] | Some st' \<Rightarrow> select_states step st' files)"


text \<open>
  The value of \<open>estimatedTokens\<close> in the iteration that accepts a file, as a function of
  the file it pushes, and the sum of these values over a list of files.
\<close>

definition estimatedTokens :: "js_string \<Rightarrow> js_string \<Rightarrow> fetched_file \<Rightarrow> int" where
  "estimatedTokens MAIN_FILE_PROMPT REGULAR_FILE_PROMPT f =
     (let mainPromptTokens = \<lceil>of_nat (length MAIN_FILE_PROMPT) * TOKEN_ESTIMATION_RATIO\<rceil>;
          regularPromptTokens = \<lceil>of_nat (length REGULAR_FILE_PROMPT) * TOKEN_ESTIMATION_RATIO\<rceil>;
          promptTokens = (if js_includes (toLowerCase (path f)) (js ''main.py'')
                          then mainPromptTokens else regularPromptTokens)
      in \<lceil>of_nat (length (content f) + length (path f)) * TOKEN_ESTIMATION_RATIO
           + of_int promptTokens\<rceil>)"

definition estimated_total :: "js_string \<Rightarrow> js_string \<Rightarrow> fetched_file list \<Rightarrow> int" where
  "estimated_total MAIN_FILE_PROMPT REGULAR_FILE_PROMPT fs =
     sum_list (map (estimatedTokens MAIN_FILE_PROMPT REGULAR_FILE_PROMPT) fs)"

subsection \<open>The planner's quantities as the specification words them\<close>

text \<open>
  The files whose fetch succeeds, in the order of the input, each with its normalized
  content; the estimated cost of the template that applies to a file, the entry-point
  template for an entry-point file and the regular template otherwise; and the estimated
  cost of a file, \<open>ceil((len(content) + len(path)) * ESTIMATION_RATIO + templateTokens)\<close>.
\<close>

definition fetchable :: "(file_meta \<Rightarrow> js_string option) \<Rightarrow> file_meta list \<Rightarrow> fetched_file list" where
  "fetchable getBlob files =
     List.map_filter
       (\<lambda>f. map_option (\<lambda>blob. \<lparr>path = path f, content = normalizeContent blob\<rparr>) (getBlob f)) files"



section \<open>Batch review result and result combiner\<close>

record review_result =
  success :: bool
  review :: "js_string option"
  error :: "js_string option"

text \<open>
  What \<open>openai.chat.completions.create\<close> did: it threw, or it returned a completion
  whose first choice has the given message content (\<open>None\<close> when the content is
  \<open>null\<close>).
\<close>

datatype completion = Threw | Returned "js_string option"

definition reviewFileBatch :: "completion \<Rightarrow> 'a list \<Rightarrow> review_result" where
  "reviewFileBatch completion files =
     (if length files = 0 then
        \<lparr>success = False, review = None, error = Some (js ''No files were selected for review.'')\<rparr>
      else case completion of
        Threw \<Rightarrow>
          \<lparr>success = False, review = None,
           error = Some (js ''An internal error occurred while calling the AI review service.'')\<rparr>
      | Returned c \<Rightarrow>
          (let responseContent = or_else c [] in
           if responseContent = [] then
             \<lparr>success = False, review = None, error = Some (js ''AI returned an empty response.'')\<rparr>
           else \<lparr>success = True, review = Some responseContent, error = None\<rparr>))"

text \<open>The pieces of the summary template, in the order the code appends them.\<close>

definition summary_heading :: js_string where
  "summary_heading =
     [0x000A, 0x000A] @
     js ''---'' @
     [0x000A, 0x000A] @
     js ''### '' @
     [0xD83D, 0xDD0D] @
     js '' '' @
     [0x5BA1, 0x6838, 0x6458, 0x8981, 0x000A, 0x000A]"

definition summary_statistics :: js_string where
  "summary_statistics =
     js ''**'' @
     [0x7EDF, 0x8BA1, 0x4FE1, 0x606F] @
     js ''**'' @
     [0x000A]"

definition summary_total_label :: js_string where
  "summary_total_label =
     js ''* **'' @
     [0x4ED3, 0x5E93, 0x6587, 0x4EF6, 0x603B, 0x6570] @
     js ''**: ''"

definition summary_total_unit :: js_string where
  "summary_total_unit =
     js '' '' @
     [0x4E2A] @
     js '' Python '' @
     [0x6587, 0x4EF6, 0x000A]"

definition summary_selected_label :: js_string where
  "summary_selected_label =
     js ''* **'' @
     [0x5DF2, 0x9009, 0x62E9, 0x5BA1, 0x6838, 0x6587, 0x4EF6] @
     js ''**: ''"

definition summary_list_open :: js_string where
  "summary_list_open =
     js ''**'' @
     [0x5DF2, 0x53D1, 0x9001, 0x81F3] @
     js '' AI '' @
     [0x5BA1, 0x6838, 0x7684, 0x6587, 0x4EF6, 0x6E05, 0x5355] @
     js ''**'' @
     [0x000A, 0x0060, 0x0060, 0x0060, 0x000A]"

definition summary_list_close :: js_string where
  "summary_list_close =
     [0x000A, 0x0060, 0x0060, 0x0060, 0x000A]"

definition partial_review_note :: js_string where
  "partial_review_note =
     [0x000A] @
     js ''*'' @
     [0x6CE8, 0x610F, 0xFF1A, 0x7531, 0x4E8E, 0x9879, 0x76EE, 0x89C4] @
     [0x6A21, 0x6216] @
     js ''Token'' @
     [0x9650, 0x5236, 0xFF0C, 0x672C, 0x6B21, 0x4EC5, 0x5BA1, 0x6838] @
     [0x4E86, 0x90E8, 0x5206, 0x4F18, 0x5148, 0x6587, 0x4EF6, 0x3002] @
     [0x4EE5, 0x4E0A, 0x62A5, 0x544A, 0x5185, 0x5BB9, 0x7531] @
     js '' AI '' @
     [0x76F4, 0x63A5, 0x751F, 0x6210, 0x3002] @
     js ''*''"

definition combineReviewResults ::
  "review_result \<Rightarrow> nat \<Rightarrow> 'a file_path_scheme list \<Rightarrow> review_result" where
  "combineReviewResults reviewResult totalFileCount selectedFiles =
     (if \<not> success reviewResult then
        \<lparr>success = False, review = None,
         error = Some (or_else (error reviewResult)
                   (js ''Code review failed and no specific error was provided.''))\<rparr>
      else
        (let rawReviewText = review reviewResult;
             selectedFileCount = length selectedFiles;
             summary = summary_heading;
             summary = summary @ summary_statistics;
             summary = summary @ summary_total_label @ toString totalFileCount @ summary_total_unit;
             summary = summary @ summary_selected_label @ toString selectedFileCount @ js '' / '' @
                       toString totalFileCount @ [0x000A];
             summary = summary @ summary_list_open @ join [0x000A] (map path selectedFiles) @
                       summary_list_close;
             summary = (if totalFileCount > selectedFileCount
                        then summary @ partial_review_note else summary)
         in \<lparr>success = True, review = Some (str rawReviewText @ summary), error = None\<rparr>))"

subsection \<open>The list of paths as the specification words it\<close>

text \<open>
  The list of the selected paths as the summary shows it: one path on each line between
  two code fences, and an empty line between them when no file is selected.
\<close>

definition spec_path_list :: "'a file_path_scheme list \<Rightarrow> js_string" where
  "spec_path_list fs =
     [0x0060, 0x0060, 0x0060, 0x000A] @
     (if fs = [] then [0x000A] else concat (map (\<lambda>f. path f @ [0x000A]) fs)) @
     [0x0060, 0x0060, 0x0060, 0x000A]"
section \<open>Regular expressions\<close>

text \<open>
  The regular expressions of the program use literal characters, character sets, \<open>\s\<close>,
  \<open>.\<close>, \<open>[\s\S]\<close>, the quantifiers \<open>*\<close>, \<open>+\<close> and \<open>*?\<close> on one character class, the
  quantifier \<open>?\<close> on a group, alternation, capture groups, the anchors \<open>^\<close> and \<open>$\<close>, and
  the flags \<open>i\<close> and \<open>g\<close>. The matcher below is ECMAScript's backtracking matcher on
  this fragment: alternatives are tried left to right, a greedy quantifier tries the
  longer match first, a lazy one the shorter.
\<close>

datatype atom =
    Chr js_char
  | OneOf "js_char list"
  | Space
  | Dot
  | AnyChar

datatype regex =
    Atom atom
  | Str js_string
  | Star atom
  | Lazy atom
  | Plus atom
  | Seq "regex list"
  | Alt regex regex
  | Opt regex
  | Group nat regex
  | Bol
  | Eol

text \<open>
  With the flag \<open>i\<close> (and without \<open>u\<close>) two code units match when their upper-case
  forms agree, where a character outside ASCII is never mapped into ASCII; the patterns
  have no cased character outside ASCII, so folding the ASCII letters is exact for them.
\<close>

definition canonicalize :: "bool \<Rightarrow> js_char \<Rightarrow> js_char" where
  "canonicalize ignoreCase c = (if ignoreCase \<and> 0x61 \<le> c \<and> c \<le> 0x7A then c - 0x20 else c)"

definition isLineTerminator :: "js_char \<Rightarrow> bool" where
  "isLineTerminator c \<longleftrightarrow> c \<in> set [0x000A, 0x000D, 0x2028, 0x2029]"

fun atom_matches :: "bool \<Rightarrow> atom \<Rightarrow> js_char \<Rightarrow> bool" where
  "atom_matches ic (Chr a) c \<longleftrightarrow> canonicalize ic a = canonicalize ic c"
| "atom_matches ic (OneOf as) c \<longleftrightarrow> canonicalize ic c \<in> set (map (canonicalize ic) as)"
| "atom_matches ic Space c \<longleftrightarrow> isWhiteSpace c"
| "atom_matches ic Dot c \<longleftrightarrow> \<not> isLineTerminator c"
| "atom_matches ic AnyChar c \<longleftrightarrow> True"

fun str_matches :: "bool \<Rightarrow> js_string \<Rightarrow> js_string \<Rightarrow> bool" where
  "str_matches ic [] s \<longleftrightarrow> True"
| "str_matches ic (a # as) [] \<longleftrightarrow> False"
| "str_matches ic (a # as) (c # cs) \<longleftrightarrow> canonicalize ic a = canonicalize ic c \<and> str_matches ic as cs"

text \<open>
  The matcher works on a stack of what is still to be matched: regular expressions, and
  for every open capture group the input that was left when the group was entered.
  It returns the input left after the match and the captures.
\<close>

datatype item = Rx regex | Close nat js_string

type_synonym captures = "nat \<Rightarrow> js_string option"

fun weight :: "regex \<Rightarrow> nat" where
  "weight (Atom a) = 1"
| "weight (Str w) = 1"
| "weight (Star a) = 1"
| "weight (Lazy a) = 1"
| "weight (Plus a) = 3"
| "weight (Seq rs) = Suc (sum_list (map weight rs))"
| "weight (Alt r1 r2) = Suc (weight r1 + weight r2)"
| "weight (Opt r) = Suc (weight r)"
| "weight (Group n r) = Suc (Suc (weight r))"
| "weight Bol = 1"
| "weight Eol = 1"

fun item_weight :: "item \<Rightarrow> nat" where
  "item_weight (Rx r) = weight r"
| "item_weight (Close n s) = 1"

function matcher :: "bool \<Rightarrow> item list \<Rightarrow> js_string \<Rightarrow> nat \<Rightarrow> captures
    \<Rightarrow> (js_string \<times> captures) option" where
  "matcher ic [] s p caps = Some (s, caps)"
| "matcher ic (Rx (Atom a) # k) s p caps =
     (case s of [] \<Rightarrow> None
      | c # cs \<Rightarrow> if atom_matches ic a c then matcher ic k cs (Suc p) caps else None)"
| "matcher ic (Rx (Str w) # k) s p caps =
     (if str_matches ic w s then matcher ic k (drop (length w) s) (p + length w) caps else None)"
| "matcher ic (Rx (Star a) # k) s p caps =
     (case s of [] \<Rightarrow> matcher ic k s p caps
      | c # cs \<Rightarrow>
          if atom_matches ic a c then
            (case matcher ic (Rx (Star a) # k) cs (Suc p) caps of
               Some r \<Rightarrow> Some r
             | None \<Rightarrow> matcher ic k s p caps)
          else matcher ic k s p caps)"
| "matcher ic (Rx (Lazy a) # k) s p caps =
     (case matcher ic k s p caps of
        Some r \<Rightarrow> Some r
      | None \<Rightarrow>
          (case s of [] \<Rightarrow> None
           | c # cs \<Rightarrow> if atom_matches ic a c then matcher ic (Rx (Lazy a) # k) cs (Suc p) caps
                       else None))"
| "matcher ic (Rx (Plus a) # k) s p caps = matcher ic (Rx (Atom a) # Rx (Star a) # k) s p caps"
| "matcher ic (Rx (Seq rs) # k) s p caps = matcher ic (map Rx rs @ k) s p caps"
| "matcher ic (Rx (Alt r1 r2) # k) s p caps =
     (case matcher ic (Rx r1 # k) s p caps of
        Some r \<Rightarrow> Some r
      | None \<Rightarrow> matcher ic (Rx r2 # k) s p caps)"
| "matcher ic (Rx (Opt r) # k) s p caps =
     (case matcher ic (Rx r # k) s p caps of
        Some r \<Rightarrow> Some r
      | None \<Rightarrow> matcher ic k s p caps)"
| "matcher ic (Rx (Group n r) # k) s p caps = matcher ic (Rx r # Close n s # k) s p caps"
| "matcher ic (Close n s0 # k) s p caps =
     matcher ic k s p (caps(n \<mapsto> take (length s0 - length s) s0))"
| "matcher ic (Rx Bol # k) s p caps = (if p = 0 then matcher ic k s p caps else None)"
| "matcher ic (Rx Eol # k) s p caps = (if s = [] then matcher ic k s p caps else None)"
  by pat_completeness auto
termination
  by (relation "measures [\<lambda>(ic, k, s, p, caps). length s,
                          \<lambda>(ic, k, s, p, caps). sum_list (map item_weight k)]")
     (auto simp: comp_def)

text \<open>
  \<open>exec\<close> looks for the leftmost match at or after the current position \<open>p\<close> (the input
  from there on is \<open>s\<close>) and returns the text of the match, the captures and the input
  after the match. \<open>test\<close> is \<open>RegExp.prototype.test\<close> on a fresh regular expression, and
  \<open>match_group\<close> the given capture of \<open>String.prototype.match\<close> without the flag \<open>g\<close>.
\<close>

fun exec :: "bool \<Rightarrow> regex \<Rightarrow> js_string \<Rightarrow> nat \<Rightarrow> (js_string \<times> captures \<times> js_string) option" where
  "exec ic r [] p =
     (case matcher ic [Rx r] [] p Map.empty of
        Some (rest, caps) \<Rightarrow> Some ([], caps, rest)
      | None \<Rightarrow> None)"
| "exec ic r (c # cs) p =
     (case matcher ic [Rx r] (c # cs) p Map.empty of
        Some (rest, caps) \<Rightarrow> Some (take (length (c # cs) - length rest) (c # cs), caps, rest)
      | None \<Rightarrow> exec ic r cs (Suc p))"

definition test :: "bool \<Rightarrow> regex \<Rightarrow> js_string \<Rightarrow> bool" where
  "test ic r s \<longleftrightarrow> exec ic r s 0 \<noteq> None"

definition match_group :: "bool \<Rightarrow> regex \<Rightarrow> nat \<Rightarrow> js_string \<Rightarrow> js_string option" where
  "match_group ic r n s = (case exec ic r s 0 of None \<Rightarrow> None | Some (m, caps, rest) \<Rightarrow> caps n)"

text \<open>
  \<open>String.prototype.replace\<close> with a regular expression that has the flag \<open>g\<close>: every
  match, found from left to right and each after the end of the one before, is replaced
  by the template; the search goes one character further after an empty match. A
  template is a sequence of literal text and group references (\<open>$1\<close>).
\<close>

datatype piece = Text js_string | Ref nat

fun expand :: "captures \<Rightarrow> piece list \<Rightarrow> js_string" where
  "expand caps [] = []"
| "expand caps (Text t # ps) = t @ expand caps ps"
| "expand caps (Ref n # ps) = (case caps n of None \<Rightarrow> [] | Some v \<Rightarrow> v) @ expand caps ps"

function replace_all :: "bool \<Rightarrow> regex \<Rightarrow> piece list \<Rightarrow> js_string \<Rightarrow> nat \<Rightarrow> js_string" where
  "replace_all ic r template s p =
     (case matcher ic [Rx r] s p Map.empty of
        Some (rest, caps) \<Rightarrow>
          if length rest < length s then
            expand caps template @ replace_all ic r template rest (p + (length s - length rest))
          else
            expand caps template @
              (case s of [] \<Rightarrow> [] | c # cs \<Rightarrow> c # replace_all ic r template cs (Suc p))
      | None \<Rightarrow>
          (case s of [] \<Rightarrow> [] | c # cs \<Rightarrow> c # replace_all ic r template cs (Suc p)))"
  by pat_completeness auto
termination
  by (relation "measure (\<lambda>(ic, r, template, s, p). length s)") auto

declare replace_all.simps [simp del]

definition replace :: "bool \<Rightarrow> regex \<Rightarrow> piece list \<Rightarrow> js_string \<Rightarrow> js_string" where
  "replace ic r template s = replace_all ic r template s 0"

section \<open>Tickets, comments and the calls to the tracker\<close>

text \<open>
  A comment as \<open>listComments\<close> returns it (\<open>user_type\<close> is \<open>comment.user?.type\<close>), the
  issue of the event payload (its body may be \<open>null\<close>; \<open>labels\<close> holds the label
  names), and the requests the program sends to the tracker.
\<close>

record comment =
  comment_id :: nat
  user_type :: "js_string option"
  comment_body :: js_string

record issue =
  title :: js_string
  body :: "js_string option"
  labels :: "js_string list"

datatype api_call =
    IssuesUpdate js_string
  | CreateComment js_string
  | UpdateComment nat js_string

definition ch :: "char \<Rightarrow> js_char" where
  "ch c = of_char c"

subsection \<open>The patterns of the orchestrator\<close>

definition retrigger_label :: js_string where
  "retrigger_label =
     [0x91CD, 0x65B0, 0x63D0, 0x4EA4, 0x5BA1, 0x6838]"

text \<open>\<open>/[-*]\s*\[[xX]\]\s*...label.../\<close>: a checked re-trigger box.\<close>

definition checked_box :: regex where
  "checked_box =
     Seq [Atom (OneOf [ch CHR ''-'', ch CHR ''*'']), Star Space, Atom (Chr (ch CHR ''['')),
          Atom (OneOf [ch CHR ''x'', ch CHR ''X'']), Atom (Chr (ch CHR '']'')), Star Space,
          Str retrigger_label]"

text \<open>\<open>/([-*]\s*\[)[xX](\]\s*...label...)/g\<close>, replaced by \<open>"$1 $2"\<close>.\<close>

definition checked_box_groups :: regex where
  "checked_box_groups =
     Seq [Group 1 (Seq [Atom (OneOf [ch CHR ''-'', ch CHR ''*'']), Star Space,
                        Atom (Chr (ch CHR ''[''))]),
          Atom (OneOf [ch CHR ''x'', ch CHR ''X'']),
          Group 2 (Seq [Atom (Chr (ch CHR '']'')), Star Space, Str retrigger_label])]"

definition uncheck_template :: "piece list" where
  "uncheck_template = [Ref 1, Text (js '' ''), Ref 2]"

text \<open>
  \<open>/##\s*(A|B|C|D)/\<close> with the four status marks: hourglass, warning sign (followed by
  a variation selector), cross mark and robot face (a surrogate pair).
\<close>

definition status_marker :: regex where
  "status_marker =
     Seq [Str (js ''##''), Star Space,
          Group 1 (Alt (Str [0x23F3]) (Alt (Str [0x26A0, 0xFE0F])
                  (Alt (Str [0x274C]) (Str [0xD83E, 0xDD16]))))]"

definition section_heading :: js_string where
  "section_heading =
     [0x5BA1, 0x6838, 0x9009, 0x9879]"

text \<open>\<open>/\n*##\s*...heading...\s*(\n*-\s*\[[ xX]\]\s*...label...\s*)?/g\<close>: the re-trigger section.\<close>

definition reReviewSectionRegex :: regex where
  "reReviewSectionRegex =
     Seq [Star (Chr 0x000A), Str (js ''##''), Star Space, Str section_heading, Star Space,
          Opt (Group 1
            (Seq [Star (Chr 0x000A), Atom (Chr (ch CHR ''-'')), Star Space,
                  Atom (Chr (ch CHR ''['')),
                  Atom (OneOf [ch CHR '' '', ch CHR ''x'', ch CHR ''X'']),
                  Atom (Chr (ch CHR '']'')), Star Space, Str retrigger_label, Star Space]))]"

definition review_options_section :: js_string where
  "review_options_section =
     [0x000A, 0x000A] @
     js ''## '' @
     [0x5BA1, 0x6838, 0x9009, 0x9879, 0x000A, 0x000A] @
     js ''- [ ] '' @
     [0x91CD, 0x65B0, 0x63D0, 0x4EA4, 0x5BA1, 0x6838]"

subsection \<open>\<open>findLastReviewComment\<close>\<close>

text \<open>
  The argument is what \<open>listComments\<close> returned, or \<open>None\<close> when the request threw (the
  \<open>catch\<close> block then returns \<open>null\<close>).
\<close>

definition findLastReviewComment :: "comment list option \<Rightarrow> comment option" where
  "findLastReviewComment listComments =
     (case listComments of
        None \<Rightarrow> None
      | Some comments \<Rightarrow>
          List.find (\<lambda>c. user_type c = Some (js ''Bot'') \<and> test False status_marker (comment_body c))
            (rev comments))"

subsection \<open>Comment templates\<close>

text \<open>
  The type of a comment together with the data its template reads: the error list of a
  format error, the error message of a failure, the plugin name and the review text of
  a success.
\<close>

datatype comment_type =
    review_started
  | format_error "js_string list"
  | review_failure "js_string option"
  | review_success "js_string option" "js_string option"

definition success_mark :: js_string where
  "success_mark =
     js ''## '' @
     [0xD83E, 0xDD16] @
     js '' AI'' @
     [0x4EE3, 0x7801, 0x5BA1, 0x6838, 0x62A5, 0x544A]"

definition started_title :: js_string where
  "started_title =
     js ''## '' @
     [0x23F3] @
     js '' '' @
     [0x6B63, 0x5728, 0x5BA1, 0x6838, 0x4E2D] @
     js ''...''"

definition generated_footer :: js_string where
  "generated_footer =
     js ''*'' @
     [0x6B64, 0x6D88, 0x606F, 0x7531, 0x7CFB, 0x7EDF, 0x81EA, 0x52A8] @
     [0x751F, 0x6210] @
     js ''*''"

definition retry_footer :: js_string where
  "retry_footer =
     js ''*'' @
     [0x8BF7, 0x6839, 0x636E, 0x4E0A, 0x8FF0, 0x95EE, 0x9898, 0x8FDB] @
     [0x884C, 0x4FEE, 0x6539, 0x3002, 0x4FEE, 0x6539, 0x5B8C, 0x6210] @
     [0x540E, 0xFF0C, 0x8BF7, 0x5728] @
     js '' **Issue '' @
     [0x6B63, 0x6587] @
     js ''** '' @
     [0x4E2D, 0x52FE, 0x9009, 0x0022, 0x91CD, 0x65B0, 0x63D0, 0x4EA4] @
     [0x5BA1, 0x6838, 0x0022, 0x590D, 0x9009, 0x6846, 0x4EE5, 0x518D] @
     [0x6B21, 0x89E6, 0x53D1, 0x5BA1, 0x6838, 0x3002] @
     js ''*'' @
     [0x000A, 0x000A] @
     js ''*'' @
     [0x6B64, 0x6D88, 0x606F, 0x7531, 0x7CFB, 0x7EDF, 0x81EA, 0x52A8] @
     [0x751F, 0x6210] @
     js ''*''"

definition format_error_title :: js_string where
  "format_error_title =
     js ''## '' @
     [0x26A0, 0xFE0F] @
     js '' '' @
     [0x63D2, 0x4EF6, 0x63D0, 0x4EA4, 0x683C, 0x5F0F, 0x9519, 0x8BEF]"

definition failure_title :: js_string where
  "failure_title =
     js ''## '' @
     [0x274C] @
     js '' '' @
     [0x63D2, 0x4EF6, 0x5BA1, 0x6838, 0x5931, 0x8D25]"

definition success_title :: js_string where
  "success_title =
     js ''## '' @
     [0xD83E, 0xDD16] @
     js '' AI'' @
     [0x4EE3, 0x7801, 0x5BA1, 0x6838, 0x62A5, 0x544A] @
     js '' for ''"

fun template_title :: "comment_type \<Rightarrow> js_string" where
  "template_title review_started = started_title"
| "template_title (format_error errors) = format_error_title"
| "template_title (review_failure e) = failure_title"
| "template_title (review_success n r) = success_title @ or_else n (js ''Unknown Plugin'')"

fun template_body :: "comment_type \<Rightarrow> js_string" where
  "template_body review_started =
     [0x673A, 0x5668, 0x4EBA, 0x6B63, 0x5728, 0x52AA, 0x529B, 0x5BA1] @
     [0x6838, 0x60A8, 0x7684, 0x63D2, 0x4EF6, 0x4EE3, 0x7801, 0xFF0C] @
     [0x8FD9, 0x53EF, 0x80FD, 0x9700, 0x8981, 0x51E0, 0x5206, 0x949F] @
     [0x65F6, 0x95F4, 0x3002, 0x8BF7, 0x7A0D, 0x5019] @
     js ''...''"
| "template_body (format_error errors) =
     [0x60A8, 0x597D, 0xFF01, 0x60A8, 0x7684, 0x63D2, 0x4EF6, 0x63D0] @
     [0x4EA4, 0x683C, 0x5F0F, 0x5B58, 0x5728, 0x95EE, 0x9898, 0xFF0C] @
     [0x65E0, 0x6CD5, 0x8FDB, 0x884C, 0x81EA, 0x52A8, 0x5BA1, 0x6838] @
     [0x3002, 0x8BF7, 0x6839, 0x636E, 0x4EE5, 0x4E0B, 0x6307, 0x5357] @
     [0x4FEE, 0x6B63, 0xFF1A, 0x000A, 0x000A] @
     join [0x000A] (map (\<lambda>e. js ''- '' @ e) errors)"
| "template_body (review_failure e) =
     [0x60A8, 0x597D, 0xFF01, 0x5728, 0x5BF9, 0x60A8, 0x7684, 0x63D2] @
     [0x4EF6, 0x8FDB, 0x884C, 0x5BA1, 0x6838, 0x65F6, 0x9047, 0x5230] @
     [0x4E86, 0x6280, 0x672F, 0x95EE, 0x9898, 0xFF1A, 0x000A, 0x000A] @
     [0x0060, 0x0060, 0x0060, 0x000A] @
     or_else e
      ([0x672A, 0x77E5, 0x9519, 0x8BEF]) @
     [0x000A, 0x0060, 0x0060, 0x0060]"
| "template_body (review_success n r) =
     [0x4F60, 0x597D, 0xFF01, 0x6211, 0x5DF2, 0x7ECF, 0x5BF9, 0x4F60] @
     [0x63D0, 0x4EA4, 0x7684, 0x63D2, 0x4EF6, 0x4EE3, 0x7801, 0x8FDB] @
     [0x884C, 0x4E86, 0x521D, 0x6B65, 0x81EA, 0x52A8, 0x5316, 0x5BA1] @
     [0x6838, 0xFF1A, 0x000A, 0x000A] @
     or_else r
      ([0x65E0, 0x5BA1, 0x6838, 0x5185, 0x5BB9])"

fun template_footer :: "comment_type \<Rightarrow> js_string" where
  "template_footer review_started = generated_footer"
| "template_footer (format_error errors) = retry_footer"
| "template_footer (review_failure e) = retry_footer"
| "template_footer (review_success n r) =
     js ''*'' @
     [0x6B64, 0x62A5, 0x544A, 0x7531] @
     js ''AI'' @
     [0x81EA, 0x52A8, 0x751F, 0x6210, 0xFF0C, 0x65E8, 0x5728, 0x63D0] @
     [0x4F9B, 0x521D, 0x6B65, 0x53CD, 0x9988, 0x548C, 0x6539, 0x8FDB] @
     [0x5EFA, 0x8BAE, 0xFF0C, 0x4E0D, 0x80FD, 0x5B8C, 0x5168, 0x66FF] @
     [0x4EE3, 0x4EBA, 0x5DE5, 0x5BA1, 0x6838, 0x3002, 0x6700, 0x7EC8] @
     [0x51B3, 0x7B56, 0x4EE5, 0x793E, 0x533A, 0x7EF4, 0x62A4, 0x8005] @
     [0x7684, 0x4EBA, 0x5DE5, 0x5BA1, 0x6838, 0x4E3A, 0x51C6, 0x3002] @
     js ''*''"

definition commentBody :: "comment_type \<Rightarrow> js_string" where
  "commentBody t =
     template_title t @ [0x000A, 0x000A] @ template_body t @
     [0x000A, 0x000A] @ js ''---'' @ [0x000A, 0x000A] @ template_footer t"

subsection \<open>\<open>updateIssueBodyForReviewOptions\<close> and \<open>postOrUpdateComment\<close>\<close>

text \<open>
  Both return the requests they send. A request that the tracker rejects is caught and
  logged; it changes nothing in what follows, except that a rejected \<open>createComment\<close>
  yields no comment id.
\<close>

definition updateIssueBodyForReviewOptions :: "issue \<Rightarrow> comment_type \<Rightarrow> api_call list" where
  "updateIssueBodyForReviewOptions payload reviewOutcome =
     (let issueBody = or_else (body payload) [];
          hasReReviewSection = test False reReviewSectionRegex issueBody;
          onFailure =
            (if \<not> hasReReviewSection
             then [IssuesUpdate (trim issueBody @ review_options_section)] else [])
      in case reviewOutcome of
           review_started \<Rightarrow> []
         | format_error errors \<Rightarrow> onFailure
         | review_failure e \<Rightarrow> onFailure
         | review_success n r \<Rightarrow>
             (if hasReReviewSection
              then [IssuesUpdate (trim (replace False reReviewSectionRegex [] issueBody))]
              else []))"

text \<open>
  \<open>created\<close> is the id of the comment \<open>createComment\<close> creates, \<open>None\<close> when that request
  is rejected. A comment id is truthy when it is neither \<open>null\<close> nor \<open>0\<close>.
\<close>

definition postOrUpdateComment ::
  "nat option \<Rightarrow> issue \<Rightarrow> comment_type \<Rightarrow> bool \<Rightarrow> nat option \<Rightarrow> api_call list \<times> nat option" where
  "postOrUpdateComment created payload t isUpdate commentId =
     (let posted =
            (case commentId of
               Some i \<Rightarrow>
                 if isUpdate \<and> i \<noteq> 0 then ([UpdateComment i (commentBody t)], commentId)
                 else ([CreateComment (commentBody t)],
                       case created of Some newId \<Rightarrow> Some newId | None \<Rightarrow> commentId)
             | None \<Rightarrow>
                 ([CreateComment (commentBody t)],
                  case created of Some newId \<Rightarrow> Some newId | None \<Rightarrow> commentId))
      in (fst posted @ updateIssueBodyForReviewOptions payload t, snd posted))"

section \<open>Submission format validator: \<open>validateIssueFormat\<close>\<close>

text \<open>
  The fields of the parsed JSON object the program reads; a field is \<open>None\<close> when it is
  absent, and strings are the only field values considered. \<open>JSON.parse\<close> is a
  parameter: it throws a syntax error with a message, or returns \<open>null\<close>, a value
  without properties (a number, a string, a boolean, an array), or an object.
  \<open>new URL\<close> is a parameter too: \<open>None\<close> when it throws.
\<close>

record plugin_data =
  name :: "js_string option"
  desc :: "js_string option"
  repo :: "js_string option"

datatype json = SyntaxError js_string | JNull | JPrimitive | JObject plugin_data

record url =
  hostname :: js_string
  pathname :: js_string

datatype format_result = Format_failure "js_string list" | Format_success plugin_data

definition truthy :: "js_string option \<Rightarrow> bool" where
  "truthy v = (case v of None \<Rightarrow> False | Some s \<Rightarrow> s \<noteq> [])"

text \<open>\<open>/^\[Plugin\]\s+.+$/i\<close> and \<open>/^\[Plugin\]\s+...placeholder...$/i\<close>.\<close>

definition title_pattern :: regex where
  "title_pattern = Seq [Bol, Str (js ''[Plugin]''), Plus Space, Plus Dot, Eol]"

definition placeholder_name :: js_string where
  "placeholder_name =
     [0x63D2, 0x4EF6, 0x540D]"

definition placeholder_desc :: js_string where
  "placeholder_desc =
     [0x63D2, 0x4EF6, 0x4ECB, 0x7ECD]"

definition placeholder_title_pattern :: regex where
  "placeholder_title_pattern = Seq [Bol, Str (js ''[Plugin]''), Plus Space, Str placeholder_name, Eol]"

definition requiredChecks :: "js_string list" where
  "requiredChecks =
    [[0x6211, 0x7684, 0x63D2, 0x4EF6, 0x7ECF, 0x8FC7, 0x5B8C, 0x6574] @
     [0x7684, 0x6D4B, 0x8BD5],
     [0x6211, 0x7684, 0x63D2, 0x4EF6, 0x4E0D, 0x5305, 0x542B, 0x6076] @
     [0x610F, 0x4EE3, 0x7801],
     [0x6211, 0x5DF2, 0x9605, 0x8BFB, 0x5E76, 0x540C, 0x610F, 0x9075] @
     [0x5B88, 0x8BE5, 0x9879, 0x76EE, 0x7684] @
     js '' ['' @
     [0x884C, 0x4E3A, 0x51C6, 0x5219] @
     js ''](https://docs.github.com/zh/site-policy/github-terms/github'' @
     js ''-community-code-of-conduct)'' @
     [0x3002]]"

text \<open>
  The pattern built for a required declaration: \<open>-\s*\[[xX]\]\s+\<close> followed by the
  declaration with every special character escaped, that is, by the literal text.
\<close>

definition check_pattern :: "js_string \<Rightarrow> regex" where
  "check_pattern check =
     Seq [Atom (Chr (ch CHR ''-'')), Star Space, Atom (Chr (ch CHR ''['')),
          Atom (OneOf [ch CHR ''x'', ch CHR ''X'']), Atom (Chr (ch CHR '']'')), Plus Space,
          Str check]"

text \<open>The fenced block: three backquotes and \<open>json\<close>, \<open>\s*([\s\S]*?)\s*\<close>, three backquotes; flag \<open>i\<close>.\<close>

definition json_block :: regex where
  "json_block =
     Seq [Str ([0x0060, 0x0060, 0x0060] @ js ''json''), Star Space, Group 1 (Lazy AnyChar),
          Star Space, Str [0x0060, 0x0060, 0x0060]]"

text \<open>\<open>s.split(sep)[0]\<close>: the part of \<open>s\<close> before the first occurrence of \<open>sep\<close>.\<close>

fun before_first :: "js_string \<Rightarrow> js_string \<Rightarrow> js_string" where
  "before_first sep [] = []"
| "before_first sep (c # cs) = (if prefix sep (c # cs) then [] else c # before_first sep cs)"

definition title_errors :: "issue \<Rightarrow> js_string list" where
  "title_errors payload =
     (if \<not> test True title_pattern (title payload) \<or> test True placeholder_title_pattern (title payload)
      then [js ''Issue'' @
            [0x6807, 0x9898, 0x683C, 0x5F0F, 0x4E0D, 0x6B63, 0x786E, 0xFF0C] @
            [0x5E94, 0x4E3A] @
            js '': '' @
            [0x0060] @
            js ''[Plugin] '' @
            [0x60A8, 0x7684, 0x63D2, 0x4EF6, 0x540D, 0x0060]]
      else [])"

definition check_errors :: "js_string \<Rightarrow> js_string list" where
  "check_errors issueBody =
     concat (map (\<lambda>check.
        if \<not> test False (check_pattern check) issueBody
        then [[0x5FC5, 0x9700, 0x7684, 0x58F0, 0x660E, 0x672A, 0x52FE, 0x9009] @
              js '': '' @
              [0x0022] @
              before_first (js '']('') check @ [0x0022]]
        else []) requiredChecks)"

definition field_errors :: "(js_string \<Rightarrow> url option) \<Rightarrow> plugin_data \<Rightarrow> js_string list" where
  "field_errors URL pluginData =
     (if \<not> truthy (name pluginData) \<or> name pluginData = Some placeholder_name
      then [[0x8BF7, 0x5728] @
            js ''JSON'' @
            [0x4E2D, 0x63D0, 0x4F9B, 0x4E00, 0x4E2A, 0x6709, 0x6548, 0x7684] @
            js '' '' @
            [0x0060] @
            js ''name'' @
            [0x0060, 0x3002]]
      else []) @
     (if \<not> truthy (desc pluginData) \<or> desc pluginData = Some placeholder_desc
      then [[0x8BF7, 0x5728] @
            js ''JSON'' @
            [0x4E2D, 0x63D0, 0x4F9B, 0x4E00, 0x4E2A, 0x6709, 0x6548, 0x7684] @
            js '' '' @
            [0x0060] @
            js ''desc'' @
            [0x0060, 0x3002]]
      else []) @
     (if \<not> truthy (repo pluginData)
      then [[0x8BF7, 0x5728] @
            js ''JSON'' @
            [0x4E2D, 0x63D0, 0x4F9B] @
            js '' '' @
            [0x0060] @
            js ''repo'' @
            [0x0060] @
            js '' '' @
            [0x4ED3, 0x5E93, 0x5730, 0x5740, 0x3002]]
      else
        (case URL (str (repo pluginData)) of
           Some u \<Rightarrow>
             if hostname u \<noteq> js ''github.com''
             then [[0x76EE, 0x524D, 0x4EC5, 0x652F, 0x6301, 0x6258, 0x7BA1, 0x5728] @
                   js '' '' @
                   [0x0060] @
                   js ''github.com'' @
                   [0x0060] @
                   js '' '' @
                   [0x4E0A, 0x7684, 0x4ED3, 0x5E93, 0x3002]]
             else []
         | None \<Rightarrow>
             [[0x63D0, 0x4F9B, 0x7684, 0x4ED3, 0x5E93] @
              js ''URL '' @
              [0x0060] @
              str (repo pluginData) @
              [0x0060] @
              js '' '' @
              [0x65E0, 0x6548, 0x3002]]))"

text \<open>
  The result is \<open>Inl\<close> when the function throws: reading a property of \<open>null\<close> is a
  \<open>TypeError\<close>.
\<close>

definition validateIssueFormat ::
  "(js_string \<Rightarrow> json) \<Rightarrow> (js_string \<Rightarrow> url option) \<Rightarrow> issue \<Rightarrow> js_string + format_result" where
  "validateIssueFormat JSON_parse URL payload =
     (let issueBody = or_else (body payload) [];
          errors = title_errors payload @ check_errors issueBody;
          noBlock =
            Inr (Format_failure (errors @
              [[0x5728] @
               js ''Issue'' @
               [0x5185, 0x5BB9, 0x4E2D, 0x672A, 0x627E, 0x5230] @
               js ''JSON'' @
               [0x4EE3, 0x7801, 0x5757, 0x3002, 0x8BF7, 0x4F7F, 0x7528] @
               js '' '' @
               [0x0060, 0x0060, 0x0060] @
               js ''json ... '' @
               [0x0060, 0x0060, 0x0060] @
               js '' '' @
               [0x5C06, 0x63D2, 0x4EF6, 0x4FE1, 0x606F, 0x5305, 0x88F9, 0x8D77] @
               [0x6765, 0x3002]]))
      in case match_group True json_block 1 issueBody of
           None \<Rightarrow> noBlock
         | Some block \<Rightarrow>
             if block = [] then noBlock
             else
               (case JSON_parse block of
                  SyntaxError message \<Rightarrow>
                    Inr (Format_failure (errors @
                      [js ''JSON'' @
                       [0x683C, 0x5F0F, 0x9519, 0x8BEF] @
                       js '': '' @ message @
                       [0x3002, 0x8BF7, 0x68C0, 0x67E5, 0x8BED, 0x6CD5, 0xFF0C, 0x5982] @
                       [0x9017, 0x53F7, 0x3001, 0x5F15, 0x53F7, 0x662F, 0x5426, 0x6B63] @
                       [0x786E, 0x3002]]))
                | JNull \<Rightarrow> Inl (js ''Cannot read properties of null'')
                | JPrimitive \<Rightarrow>
                    Inr (Format_failure (errors @
                      field_errors URL \<lparr>name = None, desc = None, repo = None\<rparr>))
                | JObject pluginData \<Rightarrow>
                    (let errors = errors @ field_errors URL pluginData in
                     if length errors > 0 then Inr (Format_failure errors)
                     else Inr (Format_success pluginData))))"

section \<open>Review orchestrator\<close>

text \<open>
  \<open>reviewPlugin\<close>: the repository URL is parsed again, its path split into owner and
  repository, and the review run on them. \<open>performAIReview\<close> is a parameter; \<open>Inl\<close> is
  the message of an error it throws.
\<close>

definition failure :: "js_string \<Rightarrow> review_result" where
  "failure message = \<lparr>success = False, review = None, error = Some message\<rparr>"

definition reviewPlugin ::
  "(js_string \<Rightarrow> url option) \<Rightarrow> (js_string \<Rightarrow> js_string \<Rightarrow> js_string + review_result)
     \<Rightarrow> plugin_data \<Rightarrow> review_result" where
  "reviewPlugin URL performAIReview pluginData =
     (case URL (str (repo pluginData)) of
        None \<Rightarrow>
          failure (js ''An error occurred while fetching or analyzing code: '' @ js ''Invalid URL'')
      | Some u \<Rightarrow>
          (case filter (\<lambda>segment. segment \<noteq> []) (split 0x002F (pathname u)) of
             owner # repository # others \<Rightarrow>
               (case performAIReview owner repository of
                  Inl message \<Rightarrow>
                    failure (js ''An error occurred while fetching or analyzing code: '' @ message)
                | Inr result \<Rightarrow> result)
           | _ \<Rightarrow> failure (js ''Invalid repository URL. Could not parse owner and repo.'')))"

text \<open>
  What the program calls and is given from outside. \<open>issues_update b\<close> tells whether the
  tracker accepts the request \<open>issues.update\<close> with the body \<open>b\<close>; when it does not, the
  request throws.
\<close>

record services =
  JSON_parse :: "js_string \<Rightarrow> json"
  URL :: "js_string \<Rightarrow> url option"
  performAIReview :: "js_string \<Rightarrow> js_string \<Rightarrow> js_string + review_result"
  listComments :: "comment list option"
  created :: "nat option"
  issues_update :: "js_string \<Rightarrow> bool"

text \<open>
  \<open>handlePluginReview\<close> returns the requests it sent and, when it throws, the message
  of the error.
\<close>

definition handlePluginReview ::
  "services \<Rightarrow> issue \<Rightarrow> bool \<Rightarrow> nat option \<Rightarrow> api_call list \<times> js_string option" where
  "handlePluginReview sv payload isUpdate commentId =
     (let started = postOrUpdateComment (created sv) payload review_started isUpdate commentId;
          currentCommentId = snd started
      in case validateIssueFormat (JSON_parse sv) (URL sv) payload of
           Inl message \<Rightarrow> (fst started, Some message)
         | Inr (Format_failure errors) \<Rightarrow>
             (fst started @
                fst (postOrUpdateComment (created sv) payload (format_error errors) True currentCommentId),
              None)
         | Inr (Format_success pluginData) \<Rightarrow>
             (let reviewResult = reviewPlugin (URL sv) (performAIReview sv) pluginData in
              if success reviewResult then
                (fst started @
                   fst (postOrUpdateComment (created sv) payload
                          (review_success (name pluginData) (review reviewResult)) True currentCommentId),
                 None)
              else
                (fst started @
                   fst (postOrUpdateComment (created sv) payload
                          (review_failure (error reviewResult)) True currentCommentId),
                 None)))"

definition systemErrorComment :: "js_string \<Rightarrow> js_string" where
  "systemErrorComment message =
     js ''## '' @
     [0x274C] @
     js '' '' @
     [0x7CFB, 0x7EDF, 0x9519, 0x8BEF, 0x000A, 0x000A, 0x5728, 0x5904] @
     [0x7406, 0x60A8, 0x7684, 0x63D2, 0x4EF6, 0x63D0, 0x4EA4, 0x65F6] @
     [0x53D1, 0x751F, 0x4E86, 0x610F, 0x5916, 0x7684, 0x7CFB, 0x7EDF] @
     [0x9519, 0x8BEF, 0xFF1A, 0x000A, 0x000A, 0x0060, 0x0060, 0x0060] @
     [0x000A] @
     or_else (Some message) (js ''Unknown error'') @
     [0x000A, 0x0060, 0x0060, 0x0060, 0x000A, 0x000A, 0x8BF7, 0x7A0D] @
     [0x540E, 0x91CD, 0x8BD5, 0xFF0C, 0x6216, 0x8054, 0x7CFB, 0x7EF4] @
     [0x62A4, 0x8005, 0x4EE5, 0x83B7, 0x53D6, 0x5E2E, 0x52A9, 0x3002] @
     [0x000A, 0x000A] @
     js ''*'' @
     [0x6B64, 0x6D88, 0x606F, 0x7531, 0x7CFB, 0x7EDF, 0x81EA, 0x52A8] @
     [0x751F, 0x6210] @
     js ''*''"

text \<open>
  The \<open>try\<close> / \<open>catch\<close> at the end of the event handler: the review, and a system-error
  comment when it throws.
\<close>

definition review_cycle :: "services \<Rightarrow> issue \<Rightarrow> bool \<Rightarrow> nat option \<Rightarrow> api_call list" where
  "review_cycle sv payload isUpdate commentId =
     (case handlePluginReview sv payload isUpdate commentId of
        (calls, None) \<Rightarrow> calls
      | (calls, Some message) \<Rightarrow> calls @ [CreateComment (systemErrorComment message)])"

text \<open>
  The block of the handler for an edited issue: \<open>None\<close> when the handler returns, else
  the id of the comment to update and the body it writes to the issue.
\<close>

definition edited_retrigger :: "comment option \<Rightarrow> issue \<Rightarrow> (nat \<times> js_string) option" where
  "edited_retrigger lastReviewComment payload =
     (case lastReviewComment of
        None \<Rightarrow> None
      | Some c \<Rightarrow>
          if js_includes (comment_body c) success_mark
             \<or> js_includes (comment_body c) started_title
             \<or> (case body payload of None \<Rightarrow> True | Some b \<Rightarrow> \<not> test False checked_box b)
          then None
          else Some (comment_id c,
                     replace False checked_box_groups uncheck_template (str (body payload))))"

text \<open>
  The event handler; it returns the requests it sent. The request that un-checks the box
  is awaited outside the \<open>try\<close> block: when the tracker rejects it, the handler ends
  there, before \<open>handlePluginReview\<close>.
\<close>

datatype action = opened | edited

definition issues_handler :: "services \<Rightarrow> action \<Rightarrow> issue \<Rightarrow> api_call list" where
  "issues_handler sv act payload =
     (if \<not> list_ex (\<lambda>label. label = js ''plugin-publish'') (labels payload) then []
      else case act of
        opened \<Rightarrow> review_cycle sv payload False None
      | edited \<Rightarrow>
          (case edited_retrigger (findLastReviewComment (listComments sv)) payload of
             None \<Rightarrow> []
           | Some (commentToUpdateId, updatedBody) \<Rightarrow>
               IssuesUpdate updatedBody #
               (if issues_update sv updatedBody
                then review_cycle sv payload True (Some commentToUpdateId) else [])))"

subsection \<open>The kind of a status comment\<close>

text \<open>
  The four kinds of status comment of the specification. A comment body is of a kind
  when it begins with the title of that kind's template; \<open>kind_of\<close> is \<open>None\<close> for any
  other text, the system-error comment included.
\<close>

datatype kind = Started | FormatError | Failure | Success

fun template_kind :: "comment_type \<Rightarrow> kind" where
  "template_kind review_started = Started"
| "template_kind (format_error errors) = FormatError"
| "template_kind (review_failure e) = Failure"
| "template_kind (review_success n r) = Success"

definition kind_of :: "js_string \<Rightarrow> kind option" where
  "kind_of text =
     (if prefix started_title text then Some Started
      else if prefix format_error_title text then Some FormatError
      else if prefix failure_title text then Some Failure
      else if prefix success_title text then Some Success
      else None)"

text \<open>
  The body of the ticket after a list of requests, all accepted by the tracker: the one
  of the last \<open>issues.update\<close>, or the body it had.
\<close>

fun body_after :: "js_string \<Rightarrow> api_call list \<Rightarrow> js_string" where
  "body_after b [] = b"
| "body_after b (IssuesUpdate b' # calls) = body_after b' calls"
| "body_after b (CreateComment t # calls) = body_after b calls"
| "body_after b (UpdateComment i t # calls) = body_after b calls"

section \<open>Fixtures\<close>

text \<open>Concrete inputs at which the theorems below are instantiated.\<close>

definition four_files :: "fetched_file list" where
  "four_files = [\<lparr>path = js ''main.py'', content = []\<rparr>, \<lparr>path = js ''a.py'', content = []\<rparr>,
                 \<lparr>path = js ''b.py'', content = []\<rparr>, \<lparr>path = js ''c.py'', content = []\<rparr>]"

definition five_files :: "file_meta list" where
  "five_files = [\<lparr>path = js ''z.py'', sha = js ''1''\<rparr>, \<lparr>path = js ''b/a.py'', sha = js ''2''\<rparr>,
                 \<lparr>path = js ''a.py'', sha = js ''3''\<rparr>, \<lparr>path = js ''x/Main.py'', sha = js ''4''\<rparr>,
                 \<lparr>path = js ''main.py'', sha = js ''5''\<rparr>]"

text \<open>
  A planner run: five descriptors in priority order, the fetch of the first one fails,
  every other blob is one line with a trailing comment, and the budget of
  \<open>16 * 0.7\<close> tokens admits exactly two of the remaining four files.
\<close>

definition prioritized_files :: "file_meta list" where
  "prioritized_files =
     [\<lparr>path = js ''main.py'', sha = js ''5''\<rparr>, \<lparr>path = js ''x/Main.py'', sha = js ''4''\<rparr>,
      \<lparr>path = js ''a.py'', sha = js ''3''\<rparr>, \<lparr>path = js ''z.py'', sha = js ''1''\<rparr>,
      \<lparr>path = js ''b/a.py'', sha = js ''2''\<rparr>]"

definition failing_first :: "file_meta \<Rightarrow> js_string option" where
  "failing_first f = (if sha f = js ''5'' then None else Some (js ''x = 1 # c''))"

definition main_template :: js_string where
  "main_template = js ''MAIN PROMPT''"

definition regular_template :: js_string where
  "regular_template = js ''REG''"

text \<open>
  Repositories with a file \<open>domain.py\<close>, whose path contains the text \<open>main.py\<close>: next to
  a shallower file, next to the entry-point file, and alone with a blob of one line.
\<close>

definition domain_below :: "file_meta list" where
  "domain_below = [\<lparr>path = js ''z.py'', sha = js ''1''\<rparr>, \<lparr>path = js ''pkg/domain.py'', sha = js ''2''\<rparr>]"

definition domain_and_main :: "file_meta list" where
  "domain_and_main = [\<lparr>path = js ''main.py'', sha = js ''1''\<rparr>, \<lparr>path = js ''domain.py'', sha = js ''2''\<rparr>]"



text \<open>
  A repository with one Python file, whose name is the text of the partial-review note
  (without the line feed in front of it), and a successful review.
\<close>

definition noted_files :: "fetched_file list" where
  "noted_files = [\<lparr>path = tl partial_review_note @ js ''.py'', content = js ''x = 1''\<rparr>]"

definition looks_good :: review_result where
  "looks_good = \<lparr>success = True, review = Some (js ''LGTM''), error = None\<rparr>"
text \<open>
  A submission: the three declarations checked and a JSON block whose repository is
  \<open>https://github.com/acme/foo\<close>; and the same submission with the repository
  \<open>https://github.com/\<close>.
\<close>

definition submission_body :: js_string where
  "submission_body =
     js ''### '' @
     [0x63D2, 0x4EF6, 0x4FE1, 0x606F, 0x000A, 0x000A, 0x0060, 0x0060] @
     [0x0060] @
     js ''json'' @
     [0x000A] @
     js ''{'' @
     [0x0022] @
     js ''name'' @
     [0x0022] @
     js '': '' @
     [0x0022] @
     js ''Foo'' @
     [0x0022] @
     js '', '' @
     [0x0022] @
     js ''desc'' @
     [0x0022] @
     js '': '' @
     [0x0022] @
     js ''A plugin'' @
     [0x0022] @
     js '', '' @
     [0x0022] @
     js ''repo'' @
     [0x0022] @
     js '': '' @
     [0x0022] @
     js ''https://github.com/acme/foo'' @
     [0x0022] @
     js ''}'' @
     [0x000A, 0x0060, 0x0060, 0x0060, 0x000A, 0x000A] @
     js ''- [x] '' @
     [0x6211, 0x7684, 0x63D2, 0x4EF6, 0x7ECF, 0x8FC7, 0x5B8C, 0x6574] @
     [0x7684, 0x6D4B, 0x8BD5, 0x000A] @
     js ''- [x] '' @
     [0x6211, 0x7684, 0x63D2, 0x4EF6, 0x4E0D, 0x5305, 0x542B, 0x6076] @
     [0x610F, 0x4EE3, 0x7801, 0x000A] @
     js ''- [x] '' @
     [0x6211, 0x5DF2, 0x9605, 0x8BFB, 0x5E76, 0x540C, 0x610F, 0x9075] @
     [0x5B88, 0x8BE5, 0x9879, 0x76EE, 0x7684] @
     js '' ['' @
     [0x884C, 0x4E3A, 0x51C6, 0x5219] @
     js ''](https://docs.github.com/zh/site-policy/github-terms/github'' @
     js ''-community-code-of-conduct)'' @
     [0x3002]"

definition submission_json :: js_string where
  "submission_json =
     js ''{'' @
     [0x0022] @
     js ''name'' @
     [0x0022] @
     js '': '' @
     [0x0022] @
     js ''Foo'' @
     [0x0022] @
     js '', '' @
     [0x0022] @
     js ''desc'' @
     [0x0022] @
     js '': '' @
     [0x0022] @
     js ''A plugin'' @
     [0x0022] @
     js '', '' @
     [0x0022] @
     js ''repo'' @
     [0x0022] @
     js '': '' @
     [0x0022] @
     js ''https://github.com/acme/foo'' @
     [0x0022] @
     js ''}''"

definition rootless_body :: js_string where
  "rootless_body =
     js ''### '' @
     [0x63D2, 0x4EF6, 0x4FE1, 0x606F, 0x000A, 0x000A, 0x0060, 0x0060] @
     [0x0060] @
     js ''json'' @
     [0x000A] @
     js ''{'' @
     [0x0022] @
     js ''name'' @
     [0x0022] @
     js '': '' @
     [0x0022] @
     js ''Foo'' @
     [0x0022] @
     js '', '' @
     [0x0022] @
     js ''desc'' @
     [0x0022] @
     js '': '' @
     [0x0022] @
     js ''A plugin'' @
     [0x0022] @
     js '', '' @
     [0x0022] @
     js ''repo'' @
     [0x0022] @
     js '': '' @
     [0x0022] @
     js ''https://github.com/'' @
     [0x0022] @
     js ''}'' @
     [0x000A, 0x0060, 0x0060, 0x0060, 0x000A, 0x000A] @
     js ''- [x] '' @
     [0x6211, 0x7684, 0x63D2, 0x4EF6, 0x7ECF, 0x8FC7, 0x5B8C, 0x6574] @
     [0x7684, 0x6D4B, 0x8BD5, 0x000A] @
     js ''- [x] '' @
     [0x6211, 0x7684, 0x63D2, 0x4EF6, 0x4E0D, 0x5305, 0x542B, 0x6076] @
     [0x610F, 0x4EE3, 0x7801, 0x000A] @
     js ''- [x] '' @
     [0x6211, 0x5DF2, 0x9605, 0x8BFB, 0x5E76, 0x540C, 0x610F, 0x9075] @
     [0x5B88, 0x8BE5, 0x9879, 0x76EE, 0x7684] @
     js '' ['' @
     [0x884C, 0x4E3A, 0x51C6, 0x5219] @
     js ''](https://docs.github.com/zh/site-policy/github-terms/github'' @
     js ''-community-code-of-conduct)'' @
     [0x3002]"

definition rootless_json :: js_string where
  "rootless_json =
     js ''{'' @
     [0x0022] @
     js ''name'' @
     [0x0022] @
     js '': '' @
     [0x0022] @
     js ''Foo'' @
     [0x0022] @
     js '', '' @
     [0x0022] @
     js ''desc'' @
     [0x0022] @
     js '': '' @
     [0x0022] @
     js ''A plugin'' @
     [0x0022] @
     js '', '' @
     [0x0022] @
     js ''repo'' @
     [0x0022] @
     js '': '' @
     [0x0022] @
     js ''https://github.com/'' @
     [0x0022] @
     js ''}''"

text \<open>
  \<open>JSON.parse\<close> at the two JSON texts above (any other text is rejected here), and
  \<open>new URL\<close> on an absolute \<open>https\<close> URL that consists of a host name in lower case and
  a path and has no port, credentials, query, fragment, dot segments or characters the
  parser escapes.
\<close>

definition fixture_JSON :: "js_string \<Rightarrow> json" where
  "fixture_JSON block =
     (if block = submission_json then
        JObject \<lparr>name = Some (js ''Foo''), desc = Some (js ''A plugin''),
                 repo = Some (js ''https://github.com/acme/foo'')\<rparr>
      else if block = rootless_json then
        JObject \<lparr>name = Some (js ''Foo''), desc = Some (js ''A plugin''),
                 repo = Some (js ''https://github.com/'')\<rparr>
      else SyntaxError (js ''Unexpected token''))"

definition https_URL :: "js_string \<Rightarrow> url option" where
  "https_URL s =
     (if prefix (js ''https://'') s then
        (let rest = drop 8 s;
             host = takeWhile (\<lambda>c. c \<noteq> 0x002F) rest;
             p = dropWhile (\<lambda>c. c \<noteq> 0x002F) rest
         in if host = [] then None
            else Some \<lparr>hostname = host, pathname = (if p = [] then js ''/'' else p)\<rparr>)
      else None)"

definition submission :: issue where
  "submission = \<lparr>title = js ''[Plugin] Foo'', body = Some submission_body,
                  labels = [js ''plugin-publish'']\<rparr>"

definition rootless_submission :: issue where
  "rootless_submission = \<lparr>title = js ''[Plugin] Foo'', body = Some rootless_body,
                  labels = [js ''plugin-publish'']\<rparr>"

text \<open>
  Tickets whose body is a checked re-trigger box, with one bot comment: a system-error
  comment, a format-error report, a success report.
\<close>

definition retrigger_issue :: issue where
  "retrigger_issue = \<lparr>title = js ''[Plugin] Foo'', body = Some (js ''- [x] '' @ retrigger_label),
                       labels = [js ''plugin-publish'']\<rparr>"

definition system_error_comment :: comment where
  "system_error_comment =
     \<lparr>comment_id = 7, user_type = Some (js ''Bot''), comment_body = systemErrorComment (js ''boom'')\<rparr>"

definition format_error_comment :: comment where
  "format_error_comment =
     \<lparr>comment_id = 7, user_type = Some (js ''Bot''),
      comment_body = commentBody (format_error [js ''bad title''])\<rparr>"

definition success_comment :: comment where
  "success_comment =
     \<lparr>comment_id = 7, user_type = Some (js ''Bot''),
      comment_body = commentBody (review_success (Some (js ''Foo'')) (Some (js ''fine'')))\<rparr>"

definition fixture_services :: "comment list \<Rightarrow> services" where
  "fixture_services comments =
     \<lparr>JSON_parse = fixture_JSON, URL = https_URL,
      performAIReview = (\<lambda>owner repository. Inl (js ''unreachable'')),
      listComments = Some comments, created = Some 8, issues_update = (\<lambda>b. True)\<rparr>"

definition started_comment :: comment where
  "started_comment =
     \<lparr>comment_id = 6, user_type = Some (js ''Bot''), comment_body = commentBody review_started\<rparr>"

definition acme_foo :: plugin_data where
  "acme_foo = \<lparr>name = Some (js ''Foo''), desc = Some (js ''A plugin''),
                repo = Some (js ''https://github.com/acme/foo'')\<rparr>"

definition rootless :: plugin_data where
  "rootless = \<lparr>name = Some (js ''Foo''), desc = Some (js ''A plugin''),
                repo = Some (js ''https://github.com/'')\<rparr>"

text \<open>
  A ticket whose body holds the re-trigger section twice and no submission. A service
  whose reviewer approves, and a ticket with the valid submission followed by the section.
\<close>

definition duplicated_sections :: js_string where
  "duplicated_sections =
     js ''## '' @ section_heading @ [0x000A, 0x000A] @ js ''- [ ] '' @ retrigger_label @
     [0x000A, 0x000A] @
     js ''## '' @ section_heading @ [0x000A, 0x000A] @ js ''- [ ] '' @ retrigger_label"

definition duplicated_issue :: issue where
  "duplicated_issue = \<lparr>title = js ''[Plugin] Foo'', body = Some duplicated_sections,
                         labels = [js ''plugin-publish'']\<rparr>"

definition approving_services :: services where
  "approving_services =
     \<lparr>JSON_parse = fixture_JSON, URL = https_URL,
      performAIReview =
        (\<lambda>owner repository. Inr \<lparr>success = True, review = Some (js ''fine''), error = None\<rparr>),
      listComments = Some [], created = Some 8, issues_update = (\<lambda>b. True)\<rparr>"

definition resubmission :: issue where
  "resubmission = \<lparr>title = js ''[Plugin] Foo'',
                     body = Some (submission_body @ review_options_section),
                     labels = [js ''plugin-publish'']\<rparr>"



definition heading_only_issue :: issue where
  "heading_only_issue = \<lparr>title = js ''[Plugin] Foo'', body = Some (js ''## '' @ section_heading),
                          labels = [js ''plugin-publish'']\<rparr>"

definition rejoining_body :: js_string where
  "rejoining_body =
     submission_body @ [0x000A, 0x000A] @ js ''#'' @ [0x000A, 0x000A] @
     js ''## '' @ section_heading @ [0x000A, 0x000A] @ js ''# '' @ section_heading"

definition rejoining_issue :: issue where
  "rejoining_issue = \<lparr>title = js ''[Plugin] Foo'', body = Some rejoining_body,
                       labels = [js ''plugin-publish'']\<rparr>"

section \<open>Auxiliary notions\<close>

text \<open>
  \<open>parse_box s\<close> reads a checked re-trigger box at the beginning of \<open>s\<close>: the dash or
  star, the white space after it, the \<open>x\<close>, the white space after the closing bracket,
  and what follows the label.
\<close>

definition parse_box :: "js_string \<Rightarrow> (js_char \<times> js_string \<times> js_char \<times> js_string \<times> js_string) option" where
  "parse_box s =
    (case s of [] \<Rightarrow> None
     | c # t \<Rightarrow>
         if c = 0x2D \<or> c = 0x2A then
           (case dropWhile isWhiteSpace t of
              [] \<Rightarrow> None
            | b # u \<Rightarrow>
                if b = 0x5B then
                  (case u of
                     x # e # t2 \<Rightarrow>
                       if (x = 0x78 \<or> x = 0x58) \<and> e = 0x5D
                          \<and> prefix retrigger_label (dropWhile isWhiteSpace t2)
                       then Some (c, takeWhile isWhiteSpace t, x, takeWhile isWhiteSpace t2,
                                  drop (length retrigger_label) (dropWhile isWhiteSpace t2))
                       else None
                   | _ \<Rightarrow> None)
                else None)
         else None)"

text \<open>
  \<open>parse_checkbox_line t\<close> reads the optional group of the section pattern at the beginning
  of \<open>t\<close>: line feeds, a dash, white space, a box that is empty or checked, white space,
  the label, white space. The result is what follows it.
\<close>

definition parse_checkbox_line :: "js_string \<Rightarrow> js_string option" where
  "parse_checkbox_line t =
     (case dropWhile (\<lambda>c. c = 0x000A) t of
        [] \<Rightarrow> None
      | d # t2 \<Rightarrow>
          if d = 0x2D then
            (case dropWhile isWhiteSpace t2 of
               [] \<Rightarrow> None
             | b # u \<Rightarrow>
                 if b = 0x5B then
                   (case u of
                      x # e # t3 \<Rightarrow>
                        if (x = 0x20 \<or> x = 0x78 \<or> x = 0x58) \<and> e = 0x5D
                           \<and> prefix retrigger_label (dropWhile isWhiteSpace t3)
                        then Some (dropWhile isWhiteSpace
                                     (drop (length retrigger_label) (dropWhile isWhiteSpace t3)))
                        else None
                    | _ \<Rightarrow> None)
                 else None)
          else None)"

text \<open>
  \<open>parse_section s\<close> reads a re-trigger section at the beginning of \<open>s\<close>: line feeds, two
  hashes, white space, the heading, white space, and the checkbox line when there is
  one. The result is what follows the section.
\<close>

definition parse_section :: "js_string \<Rightarrow> js_string option" where
  "parse_section s =
     (if prefix (js ''##'') (dropWhile (\<lambda>c. c = 0x000A) s)
         \<and> prefix section_heading
               (dropWhile isWhiteSpace (drop 2 (dropWhile (\<lambda>c. c = 0x000A) s)))
      then
        (case parse_checkbox_line
                (dropWhile isWhiteSpace (drop (length section_heading)
                   (dropWhile isWhiteSpace (drop 2 (dropWhile (\<lambda>c. c = 0x000A) s))))) of
           Some rest \<Rightarrow> Some rest
         | None \<Rightarrow>
             Some (dropWhile isWhiteSpace (drop (length section_heading)
                     (dropWhile isWhiteSpace (drop 2 (dropWhile (\<lambda>c. c = 0x000A) s))))))
      else None)"

definition after_heading :: "js_string \<Rightarrow> js_string option" where
  "after_heading t =
     (case parse_checkbox_line (dropWhile isWhiteSpace t) of
        Some rest \<Rightarrow> Some rest
      | None \<Rightarrow> Some (dropWhile isWhiteSpace t))"

text \<open>
  The number of matches a search with the flag \<open>g\<close> finds. It visits them as
  \<open>replace_all\<close> does: from left to right, each after the end of the one before.
\<close>

function count_matches :: "bool \<Rightarrow> regex \<Rightarrow> js_string \<Rightarrow> nat \<Rightarrow> nat" where
  "count_matches ic r s p =
     (case matcher ic [Rx r] s p Map.empty of
        Some (rest, caps) \<Rightarrow>
          if length rest < length s then
            Suc (count_matches ic r rest (p + (length s - length rest)))
          else
            Suc (case s of [] \<Rightarrow> 0 | c # cs \<Rightarrow> count_matches ic r cs (Suc p))
      | None \<Rightarrow>
          (case s of [] \<Rightarrow> 0 | c # cs \<Rightarrow> count_matches ic r cs (Suc p)))"
  by pat_completeness auto
termination
  by (relation "measure (\<lambda>(ic, r, s, p). length s)") auto

declare count_matches.simps [simp del]

text \<open>
  The texts of the comments that a list of requests writes, in order. A review cycle ends
  in the kind of the last of them.
\<close>

fun comment_texts :: "api_call list \<Rightarrow> js_string list" where
  "comment_texts [] = []"
| "comment_texts (IssuesUpdate b # calls) = comment_texts calls"
| "comment_texts (CreateComment t # calls) = t # comment_texts calls"
| "comment_texts (UpdateComment i t # calls) = t # comment_texts calls"

definition ended_in :: "api_call list \<Rightarrow> kind option" where
  "ended_in calls = (case rev (comment_texts calls) of [] \<Rightarrow> None | t # ts \<Rightarrow> kind_of t)"

text \<open>
  The section the program appends, with the box empty, and the same section with another
  character in the box: what the body ends with once the submitter has ticked the box.
\<close>

definition ticked_section :: "js_char \<Rightarrow> js_string" where
  "ticked_section x =
     [0x000A, 0x000A] @ js ''## '' @ section_heading @ [0x000A, 0x000A] @
     js ''- ['' @ [x] @ js ''] '' @ retrigger_label"

subsection \<open>The qualifying edit as the specification words it\<close>




text \<open>
  The report \<open>handlePluginReview\<close> ends with when the validator returned: the format
  errors, or the outcome of the review.
\<close>

definition final_report :: "services \<Rightarrow> format_result \<Rightarrow> comment_type" where
  "final_report sv formatResult =
     (case formatResult of
        Format_failure errors \<Rightarrow> format_error errors
      | Format_success pluginData \<Rightarrow>
          (let reviewResult = reviewPlugin (URL sv) (performAIReview sv) pluginData in
           if success reviewResult then review_success (name pluginData) (review reviewResult)
           else review_failure (error reviewResult)))"
section \<open>Properties of the content normalizer\<close>

lemma quote_update_spec_flags:
  "quote_update line i (spec_flags line i) = spec_flags line (Suc i)"
  by (cases "spec_flags line i"; cases "i = 0") (simp_all add: quote_update_def Let_def)

lemma removeComments_loop_find:
  "i \<le> length line \<Longrightarrow>
   removeComments_loop line i (spec_flags line i) =
     (case List.find (spec_comment_start line) [i..<length line] of
        None \<Rightarrow> line
      | Some k \<Rightarrow> trimEnd (take k line))"
proof (induction "length line - i" arbitrary: i)
  case 0
  then have "i = length line" by simp
  then show ?case by (subst removeComments_loop.simps) simp
next
  case (Suc n)
  then have lt: "i < length line" by simp
  then have upt: "[i..<length line] = i # [Suc i..<length line]"
    by (simp add: upt_conv_Cons)
  have flags: "quote_update line i (spec_flags line i) = spec_flags line (Suc i)"
    by (rule quote_update_spec_flags)
  show ?case
  proof (cases "spec_comment_start line i")
    case True
    then have "line ! i = 0x23" and "spec_flags line (Suc i) = (False, False)"
      by (simp_all add: spec_comment_start_def del: spec_flags.simps)
    with lt flags True show ?thesis
      by (subst removeComments_loop.simps) (simp add: upt Let_def del: spec_flags.simps)
  next
    case False
    then have no: "\<not> (line ! i = 0x23 \<and> \<not> fst (spec_flags line (Suc i))
                      \<and> \<not> snd (spec_flags line (Suc i)))"
      by (cases "spec_flags line (Suc i)")
         (simp add: spec_comment_start_def del: spec_flags.simps)
    have ih: "removeComments_loop line (Suc i) (spec_flags line (Suc i)) =
        (case List.find (spec_comment_start line) [Suc i..<length line] of
           None \<Rightarrow> line | Some k \<Rightarrow> trimEnd (take k line))"
      using Suc.hyps(1) [of "Suc i"] Suc.hyps(2) lt by simp
    have "removeComments_loop line i (spec_flags line i) =
          removeComments_loop line (Suc i) (spec_flags line (Suc i))"
      using lt flags no
      by (subst removeComments_loop.simps) (auto simp: Let_def simp del: spec_flags.simps)
    with ih False show ?thesis by (simp add: upt del: spec_flags.simps)
  qed
qed

lemma removeCommentsFromLine_normalize:
  "removeCommentsFromLine line = spec_normalize line"
  using removeComments_loop_find [of 0 line]
  by (simp add: removeCommentsFromLine_def spec_normalize_def)

lemma prefix_trimEnd: "prefix (trimEnd s) s"
proof -
  have "rev (takeWhile isWhiteSpace (rev s) @ dropWhile isWhiteSpace (rev s)) = s"
    by (simp only: takeWhile_dropWhile_id rev_rev_ident)
  then have "s = trimEnd s @ rev (takeWhile isWhiteSpace (rev s))"
    by (simp only: rev_append trimEnd_def)
  then show ?thesis by (metis prefixI)
qed

lemma spec_flags_prefix:
  "prefix p line \<Longrightarrow> j \<le> length p \<Longrightarrow> spec_flags p j = spec_flags line j"
proof (induction j)
  case 0
  show ?case by simp
next
  case (Suc j)
  from Suc.prems obtain q where line: "line = p @ q" by (auto simp: prefix_def)
  from Suc.prems have ih: "spec_flags p j = spec_flags line j" by (simp add: Suc.IH)
  from Suc.prems have "j < length p" "j - 1 < length p" by arith+
  then have "p ! j = line ! j" "p ! (j - 1) = line ! (j - 1)"
    by (simp_all only: line nth_append if_True)
  with ih show ?case by simp
qed

lemma spec_comment_start_prefix:
  "prefix p line \<Longrightarrow> j < length p \<Longrightarrow> spec_comment_start p j = spec_comment_start line j"
  using spec_flags_prefix [of p line "Suc j"]
  by (auto simp: spec_comment_start_def prefix_def nth_append simp del: spec_flags.simps)

lemma spec_normalize_cases:
  "spec_normalize line = line \<or>
   (\<exists>i. i < length line \<and> spec_normalize line = trimEnd (take i line)
        \<and> (\<forall>j<i. \<not> spec_comment_start line j))"
proof (cases "List.find (spec_comment_start line) [0..<length line]")
  case None
  then show ?thesis by (simp add: spec_normalize_def)
next
  case (Some i)
  then have "i < length line" "\<forall>j<i. \<not> spec_comment_start line j"
    by (auto simp: find_Some_iff)
  with Some show ?thesis by (auto simp: spec_normalize_def)
qed

lemma prefix_spec_normalize: "prefix (spec_normalize line) line"
  using spec_normalize_cases [of line] prefix_trimEnd [of "take _ line"]
  by (metis prefix_order.order_refl prefix_order.order_trans take_is_prefix)

lemma spec_normalize_idem: "spec_normalize (spec_normalize line) = spec_normalize line"
proof -
  consider "spec_normalize line = line"
    | i where "i < length line" "spec_normalize line = trimEnd (take i line)"
        "\<forall>j<i. \<not> spec_comment_start line j"
    using spec_normalize_cases [of line] by blast
  then show ?thesis
  proof cases
    case 1
    then show ?thesis by simp
  next
    case 2
    define out where "out = trimEnd (take i line)"
    have p1: "prefix out (take i line)" unfolding out_def by (rule prefix_trimEnd)
    then have len: "length out \<le> i" by (metis prefix_length_le length_take min.cobounded2 le_trans)
    have p2: "prefix out line" using p1 take_is_prefix prefix_order.order_trans by blast
    have "\<not> spec_comment_start out j" if "j < length out" for j
      using that spec_comment_start_prefix [OF p2 that] 2(3) len by simp
    then have "List.find (spec_comment_start out) [0..<length out] = None"
      by (simp add: find_None_iff)
    then have "spec_normalize out = out" by (simp add: spec_normalize_def)
    with 2(2) show ?thesis by (simp add: out_def)
  qed
qed

text \<open>
  Claim C7. The loop of \<open>removeCommentsFromLine\<close> computes what the specification
  describes: scanning left to right with the two quote flags, a quote toggling its own
  flag only when the other flag is unset and the previous character is not a backslash,
  the line is cut (and its trailing whitespace trimmed) at the first hash sign met while
  both flags are false, and returned unchanged when there is none. On the line
  \<open>x = "a#b"  # trailing\<close> the result is \<open>x = "a#b"\<close>.
\<close>

theorem removeCommentsFromLine_scan:
  \<open>removeCommentsFromLine line = spec_normalize line \<and>
   removeCommentsFromLine (js ''x = "a#b"  # trailing'') = js ''x = "a#b"''\<close>
proof
  show "removeCommentsFromLine line = spec_normalize line"
    by (rule removeCommentsFromLine_normalize)
  show \<open>removeCommentsFromLine (js ''x = "a#b"  # trailing'') = js ''x = "a#b"''\<close>
    by code_simp
qed

text \<open>
  Claim C10. The normalizer is idempotent, and its result is the whole line or a prefix
  of it with the trailing whitespace removed; in both cases a prefix of the input, so no
  character is added or moved.
\<close>

theorem removeCommentsFromLine_idempotent:
  "removeCommentsFromLine (removeCommentsFromLine line) = removeCommentsFromLine line \<and>
   (removeCommentsFromLine line = line \<or>
    (\<exists>i. i < length line \<and> removeCommentsFromLine line = trimEnd (take i line))) \<and>
   prefix (removeCommentsFromLine line) line"
  using spec_normalize_idem [of line] spec_normalize_cases [of line] prefix_spec_normalize [of line]
  by (auto simp: removeCommentsFromLine_normalize)

section \<open>Properties of the file prioritizer\<close>

lemma split_nonempty: "split c s \<noteq> []"
  by (induction s) (auto split: list.splits)

lemma length_split: "length (split c s) = Suc (count_list s c)"
proof (induction s)
  case Nil
  show ?case by simp
next
  case (Cons x xs)
  then show ?case using split_nonempty [of c xs] by (auto split: list.splits)
qed

lemma depth_separators: "depth a = Suc (separators a)"
  by (simp add: depth_def separators_def length_split)

lemma compareFiles_le:
  "compareFiles lc a b \<le> 0 \<longleftrightarrow>
     (isMain a \<and> \<not> isMain b) \<or>
     (isMain a = isMain b \<and>
       (depth a < depth b \<or> (depth a = depth b \<and> lc (path a) (path b) \<le> 0)))"
  by (auto simp: compareFiles_def Let_def)

lemma compareFiles_total:
  assumes "consistent lc"
  shows "compareFiles lc a b \<le> 0 \<or> compareFiles lc b a \<le> 0"
proof -
  from assms have "lc (path a) (path b) \<le> 0 \<or> lc (path b) (path a) \<le> 0"
    unfolding consistent_def by blast
  then show ?thesis
    unfolding compareFiles_le by auto
qed

lemma compareFiles_zero:
  "compareFiles lc a b = 0 \<longleftrightarrow>
     isMain a = isMain b \<and> depth a = depth b \<and> lc (path a) (path b) = 0"
  by (auto simp: compareFiles_def Let_def)

lemma compareFiles_sym0:
  assumes "consistent lc"
  shows "(compareFiles lc a b = 0) = (compareFiles lc b a = 0)"
proof -
  from assms have "(lc (path a) (path b) = 0) = (lc (path b) (path a) = 0)"
    unfolding consistent_def by blast
  then show ?thesis unfolding compareFiles_zero by auto
qed

lemma compareFiles_trans:
  assumes "consistent lc" "compareFiles lc a b \<le> 0" "compareFiles lc b c \<le> 0"
  shows "compareFiles lc a c \<le> 0"
proof -
  from assms(1) have tr: "\<And>x y z. lc x y \<le> 0 \<Longrightarrow> lc y z \<le> 0 \<Longrightarrow> lc x z \<le> 0"
    unfolding consistent_def by blast
  from assms(2,3) show ?thesis
    unfolding compareFiles_le
    by (auto intro: tr)
qed

lemma mset_insert_by: "mset (insert_by cmp x xs) = add_mset x (mset xs)"
  by (induction xs) auto

lemma mset_sort_by: "mset (sort_by cmp xs) = mset xs"
  by (induction xs) (auto simp: sort_by_def mset_insert_by)

lemma set_insert_by: "set (insert_by cmp x xs) = insert x (set xs)"
  by (induction xs) auto

lemma sorted_insert_by:
  assumes total: "\<And>a b. cmp a b \<le> 0 \<or> cmp b a \<le> 0"
    and trans: "\<And>a b c. cmp a b \<le> 0 \<Longrightarrow> cmp b c \<le> 0 \<Longrightarrow> cmp a c \<le> 0"
  shows "sorted_wrt (\<lambda>a b. cmp a b \<le> 0) xs \<Longrightarrow>
         sorted_wrt (\<lambda>a b. cmp a b \<le> 0) (insert_by cmp x xs)"
proof (induction xs)
  case Nil
  show ?case by simp
next
  case (Cons y ys)
  show ?case
  proof (cases "cmp x y \<le> 0")
    case True
    with Cons.prems show ?thesis by (auto intro: trans)
  next
    case False
    then have "cmp y x \<le> 0" using total [of x y] by simp
    with False Cons show ?thesis by (auto simp: set_insert_by)
  qed
qed

lemma sorted_sort_by:
  assumes "\<And>a b. cmp a b \<le> 0 \<or> cmp b a \<le> 0"
    and "\<And>a b c. cmp a b \<le> 0 \<Longrightarrow> cmp b c \<le> 0 \<Longrightarrow> cmp a c \<le> 0"
  shows "sorted_wrt (\<lambda>a b. cmp a b \<le> 0) (sort_by cmp xs)"
proof (induction xs)
  case Nil
  show ?case by (simp add: sort_by_def)
next
  case (Cons x xs)
  then show ?case using sorted_insert_by [of cmp "sort_by cmp xs" x, OF assms]
    by (simp add: sort_by_def)
qed

lemma stable_insert_by:
  assumes sym: "\<And>a b. (cmp a b = 0) = (cmp b a = 0)"
    and trans: "\<And>a b c. cmp a b \<le> 0 \<Longrightarrow> cmp b c \<le> 0 \<Longrightarrow> cmp a c \<le> 0"
  shows "filter (\<lambda>y. cmp y a = 0) (insert_by cmp x xs) =
         (if cmp x a = 0 then x # filter (\<lambda>y. cmp y a = 0) xs else filter (\<lambda>y. cmp y a = 0) xs)"
proof (induction xs)
  case Nil
  show ?case by simp
next
  case (Cons y ys)
  show ?case
  proof (cases "cmp x y \<le> 0")
    case True
    then show ?thesis by simp
  next
    case False
    have "\<not> (cmp x a = 0 \<and> cmp y a = 0)"
    proof
      assume h: "cmp x a = 0 \<and> cmp y a = 0"
      then have "cmp a y = 0" using sym [of a y] by simp
      with h have "cmp x y \<le> 0" using trans [of x a y] by simp
      with False show False by simp
    qed
    with False Cons.IH show ?thesis by auto
  qed
qed

lemma stable_sort_by:
  assumes "\<And>a b. (cmp a b = 0) = (cmp b a = 0)"
    and "\<And>a b c. cmp a b \<le> 0 \<Longrightarrow> cmp b c \<le> 0 \<Longrightarrow> cmp a c \<le> 0"
  shows "filter (\<lambda>y. cmp y a = 0) (sort_by cmp xs) = filter (\<lambda>y. cmp y a = 0) xs"
proof (induction xs)
  case Nil
  show ?case by (simp add: sort_by_def)
next
  case (Cons x xs)
  have "sort_by cmp (x # xs) = insert_by cmp x (sort_by cmp xs)" by (simp add: sort_by_def)
  then show ?case using stable_insert_by [of cmp a x "sort_by cmp xs", OF assms] Cons.IH
    by simp
qed

lemma sorted_wrt_partition:
  "sorted_wrt (\<lambda>a b. P b \<longrightarrow> P a) xs \<Longrightarrow> xs = filter P xs @ filter (\<lambda>x. \<not> P x) xs"
proof (induction xs)
  case Nil
  show ?case by simp
next
  case (Cons x xs)
  show ?case
  proof (cases "P x")
    case True
    with Cons show ?thesis by simp
  next
    case False
    with Cons.prems have "\<forall>y\<in>set xs. \<not> P y" by auto
    then have "filter P xs = []" and "filter (\<lambda>x. \<not> P x) xs = xs" by (auto simp: filter_empty_conv)
    with False show ?thesis by simp
  qed
qed

lemma consistent_codeUnitCompare: "consistent codeUnitCompare"
  unfolding consistent_def codeUnitCompare_def by (auto simp: not_less)

subsection \<open>What the sort does\<close>

text \<open>
  For a consistent path comparison the result is a permutation of the input, sorted by
  the comparison function of the code (the files whose lower-cased path contains
  \<open>main.py\<close> first, then the shallower files, then the path comparison), and the files
  that compare equal to any given file keep the order they had in the input.
\<close>

lemma sortFilesByPriority_sorted:
  assumes "consistent localeCompare"
  shows "mset (sortFilesByPriority localeCompare files) = mset files"
    and "sorted_wrt (\<lambda>a b. compareFiles localeCompare a b \<le> 0)
           (sortFilesByPriority localeCompare files)"
    and "sortFilesByPriority localeCompare files =
        filter isMain (sortFilesByPriority localeCompare files) @
        filter (\<lambda>f. \<not> isMain f) (sortFilesByPriority localeCompare files)"
    and "filter (\<lambda>f. compareFiles localeCompare f a = 0) (sortFilesByPriority localeCompare files) =
        filter (\<lambda>f. compareFiles localeCompare f a = 0) files"
proof -
  let ?cmp = "compareFiles localeCompare"
  let ?out = "sortFilesByPriority localeCompare files"
  have total: "\<And>a b. ?cmp a b \<le> 0 \<or> ?cmp b a \<le> 0"
    using assms by (rule compareFiles_total)
  have trans: "\<And>a b c. ?cmp a b \<le> 0 \<Longrightarrow> ?cmp b c \<le> 0 \<Longrightarrow> ?cmp a c \<le> 0"
    using assms by (rule compareFiles_trans)
  have sym: "\<And>a b. (?cmp a b = 0) = (?cmp b a = 0)"
    using assms by (rule compareFiles_sym0)
  show "mset ?out = mset files"
    by (simp add: sortFilesByPriority_def mset_sort_by)
  show sorted: "sorted_wrt (\<lambda>a b. ?cmp a b \<le> 0) ?out"
    unfolding sortFilesByPriority_def using total trans by (rule sorted_sort_by)
  then have "sorted_wrt (\<lambda>a b. isMain b \<longrightarrow> isMain a) ?out"
    by (rule sorted_wrt_mono_rel [rotated]) (auto simp: compareFiles_le)
  then show "?out = filter isMain ?out @ filter (\<lambda>f. \<not> isMain f) ?out"
    by (rule sorted_wrt_partition)
  show "filter (\<lambda>f. ?cmp f a = 0) ?out = filter (\<lambda>f. ?cmp f a = 0) files"
    unfolding sortFilesByPriority_def using sym trans by (rule stable_sort_by)
qed

text \<open>
  The test of the code holds for the entry-point file, and for other files too. On an
  input where it holds for the entry-point files only, the result is sorted by the order
  of the specification.
\<close>

lemma js_includes_self: "js_includes s s"
  by (cases s) simp_all

lemma js_includes_append: "js_includes (xs @ ys) ys"
  by (induction xs) (simp_all add: js_includes_self)

lemma split_single: "split c s = [a] \<Longrightarrow> a = s"
proof (induction s arbitrary: a)
  case Nil
  then show ?case by simp
next
  case (Cons x xs)
  show ?case
  proof (cases "x = c")
    case True
    with Cons.prems split_nonempty [of c xs] show ?thesis by simp
  next
    case False
    obtain y ys where s: "split c xs = y # ys"
      using split_nonempty [of c xs] by (cases "split c xs") auto
    with False Cons.prems have "ys = []" "a = x # y" by auto
    with s Cons.IH [of y] show ?thesis by simp
  qed
qed

lemma suffix_last_split: "suffix (last (split c s)) s"
proof (induction s)
  case Nil
  show ?case by simp
next
  case (Cons x xs)
  obtain y ys where s: "split c xs = y # ys"
    using split_nonempty [of c xs] by (cases "split c xs") auto
  show ?case
  proof (cases "x = c \<or> ys \<noteq> []")
    case True
    with s Cons.IH show ?thesis by (auto simp: suffix_Cons)
  next
    case False
    with s have "y = xs" by (simp add: split_single)
    with False s show ?thesis by simp
  qed
qed

lemma entry_point_isMain: "denotes_entry_point (path f) \<Longrightarrow> isMain f"
proof -
  assume "denotes_entry_point (path f)"
  then have "suffix (js ''main.py'') (toLowerCase (path f))"
    using suffix_last_split [where c = "0x2F" and s = "toLowerCase (path f)"]
    by (simp add: denotes_entry_point_def)
  then show ?thesis
    unfolding isMain_def by (auto simp: suffix_def js_includes_append)
qed

lemma sortFilesByPriority_spec_order:
  assumes "consistent localeCompare"
    and "\<forall>f\<in>set files. isMain f \<longrightarrow> denotes_entry_point (path f)"
  shows "sorted_wrt (spec_before localeCompare) (sortFilesByPriority localeCompare files)"
proof -
  have eq: "set (sortFilesByPriority localeCompare files) = set files"
    by (metis mset_eq_setD sortFilesByPriority_sorted(1) [OF assms(1)])
  have agree: "isMain f = denotes_entry_point (path f)" if "f \<in> set files" for f
    using that assms(2) entry_point_isMain by blast
  have "sorted_wrt (\<lambda>a b. compareFiles localeCompare a b \<le> 0)
           (sortFilesByPriority localeCompare files)"
    using assms(1) by (rule sortFilesByPriority_sorted(2))
  then show ?thesis
    by (rule sorted_wrt_mono_rel [rotated])
       (auto simp: eq agree compareFiles_le spec_before_def depth_separators)
qed

text \<open>
  Claim C6, which the code departs from. The comparison function takes a file for the
  entry-point file when its lower-cased path contains \<open>main.py\<close>, and so it does
  \<open>domain.py\<close>. Of the files \<open>z.py\<close> and \<open>pkg/domain.py\<close>, neither of which is the
  entry-point file, the prioritizer returns the deeper \<open>pkg/domain.py\<close> first, whatever
  the path comparison; of \<open>main.py\<close> and \<open>domain.py\<close> it returns \<open>domain.py\<close> before the
  entry-point file. Neither result is sorted by the order of the specification.
\<close>

theorem sortFilesByPriority_domain_first:
  "map path (sortFilesByPriority localeCompare domain_below) = [js ''pkg/domain.py'', js ''z.py'']
   \<and> \<not> denotes_entry_point (js ''pkg/domain.py'') \<and> \<not> denotes_entry_point (js ''z.py'')
   \<and> separators \<lparr>path = js ''z.py''\<rparr> = 0 \<and> separators \<lparr>path = js ''pkg/domain.py''\<rparr> = 1
   \<and> \<not> sorted_wrt (spec_before localeCompare) (sortFilesByPriority localeCompare domain_below)
   \<and> map path (sortFilesByPriority codeUnitCompare domain_and_main) = [js ''domain.py'', js ''main.py'']
   \<and> denotes_entry_point (js ''main.py'') \<and> \<not> denotes_entry_point (js ''domain.py'')
   \<and> \<not> sorted_wrt (spec_before codeUnitCompare) (sortFilesByPriority codeUnitCompare domain_and_main)"
proof -
  have m1: "\<not> isMain \<lparr>path = js ''z.py'', sha = js ''1''\<rparr>"
    and m2: "isMain \<lparr>path = js ''pkg/domain.py'', sha = js ''2''\<rparr>"
    by code_simp+
  have out: "sortFilesByPriority localeCompare domain_below =
      [\<lparr>path = js ''pkg/domain.py'', sha = js ''2''\<rparr>, \<lparr>path = js ''z.py'', sha = js ''1''\<rparr>]"
    using m1 m2
    by (simp add: sortFilesByPriority_def sort_by_def domain_below_def compareFiles_def Let_def)
  have e1: "\<not> denotes_entry_point (js ''pkg/domain.py'')"
    and e2: "\<not> denotes_entry_point (js ''z.py'')"
    and e3: "denotes_entry_point (js ''main.py'')"
    and e4: "\<not> denotes_entry_point (js ''domain.py'')"
    by code_simp+
  have s1: "separators \<lparr>path = js ''z.py''\<rparr> = 0"
    and s2: "separators \<lparr>path = js ''pkg/domain.py''\<rparr> = 1"
    and s3: "separators \<lparr>path = js ''z.py'', sha = js ''1''\<rparr> = 0"
    and s4: "separators \<lparr>path = js ''pkg/domain.py'', sha = js ''2''\<rparr> = 1"
    by code_simp+
  have n1: "\<not> sorted_wrt (spec_before localeCompare) (sortFilesByPriority localeCompare domain_below)"
    unfolding out using e1 e2 s3 s4 by (simp add: spec_before_def)
  have out2: "sortFilesByPriority codeUnitCompare domain_and_main =
      [\<lparr>path = js ''domain.py'', sha = js ''2''\<rparr>, \<lparr>path = js ''main.py'', sha = js ''1''\<rparr>]"
    by code_simp
  have n2: "\<not> sorted_wrt (spec_before codeUnitCompare) (sortFilesByPriority codeUnitCompare domain_and_main)"
    unfolding out2 using e3 e4 by (simp add: spec_before_def)
  from out e1 e2 s1 s2 n1 out2 e3 e4 n2 show ?thesis by simp
qed

section \<open>Properties of the file selection planner\<close>

subsection \<open>Rounding\<close>






subsection \<open>The loop\<close>




lemma select_file_cases:
  fixes M R :: js_string and getBlob limit
  defines "step \<equiv> select_file \<lceil>of_nat (length M) * TOKEN_ESTIMATION_RATIO\<rceil>
                    \<lceil>of_nat (length R) * TOKEN_ESTIMATION_RATIO\<rceil> getBlob limit"
  shows "MAX_FILES_TO_REVIEW \<le> length (selected st) \<Longrightarrow> step st f = None"
    and "length (selected st) < MAX_FILES_TO_REVIEW \<Longrightarrow> getBlob f = None \<Longrightarrow> step st f = Some st"
    and "length (selected st) < MAX_FILES_TO_REVIEW \<Longrightarrow> getBlob f = Some b \<Longrightarrow>
         step st f =
           (let ff = \<lparr>path = path f, content = normalizeContent b\<rparr> in
            if limit < of_int (totalEstimatedTokens st + estimatedTokens M R ff) then None
            else Some \<lparr>selected = selected st @ [ff],
                       totalEstimatedTokens = totalEstimatedTokens st + estimatedTokens M R ff\<rparr>)"
  unfolding step_def select_file_def
  by (simp_all add: Let_def estimatedTokens_def)

lemma fetchable_Cons:
  "fetchable getBlob (f # fs) =
     (case getBlob f of None \<Rightarrow> fetchable getBlob fs
      | Some b \<Rightarrow> \<lparr>path = path f, content = normalizeContent b\<rparr> # fetchable getBlob fs)"
  by (simp add: fetchable_def map_filter_simps split: option.splits)

lemma fetchable_Nil: "fetchable getBlob [] = []"
  by (simp add: fetchable_def map_filter_simps)

lemma select_loop_invariant:
  fixes M R :: js_string and getBlob limit
  defines "step \<equiv> select_file \<lceil>of_nat (length M) * TOKEN_ESTIMATION_RATIO\<rceil>
                    \<lceil>of_nat (length R) * TOKEN_ESTIMATION_RATIO\<rceil> getBlob limit"
  shows "\<exists>n. n \<le> length (fetchable getBlob files)
      \<and> selected (select_loop step st files) = selected st @ take n (fetchable getBlob files)
      \<and> totalEstimatedTokens (select_loop step st files) =
          totalEstimatedTokens st + estimated_total M R (take n (fetchable getBlob files))
      \<and> (n < length (fetchable getBlob files) \<longrightarrow>
            MAX_FILES_TO_REVIEW \<le> length (selected (select_loop step st files))
            \<or> limit < of_int (totalEstimatedTokens (select_loop step st files)
                          + estimatedTokens M R (fetchable getBlob files ! n)))
      \<and> (length (selected st) \<le> MAX_FILES_TO_REVIEW \<longrightarrow>
            length (selected (select_loop step st files)) \<le> MAX_FILES_TO_REVIEW)
      \<and> (of_int (totalEstimatedTokens st) \<le> limit \<longrightarrow>
            of_int (totalEstimatedTokens (select_loop step st files)) \<le> limit)
      \<and> (\<forall>k. 0 < k \<and> k \<le> n \<longrightarrow>
            of_int (totalEstimatedTokens st + estimated_total M R (take k (fetchable getBlob files)))
              \<le> limit)"
proof (induction files arbitrary: st)
  case Nil
  show ?case by (rule exI [of _ 0]) (simp add: fetchable_Nil estimated_total_def)
next
  case (Cons f fs)
  note cases = select_file_cases [where M = M and R = R and getBlob = getBlob and limit = limit,
      folded step_def]
  show ?case
  proof (cases "MAX_FILES_TO_REVIEW \<le> length (selected st)")
    case True
    then have "step st f = None" by (rule cases(1))
    with True show ?thesis by (intro exI [of _ 0]) (simp add: estimated_total_def)
  next
    case False
    then have lt: "length (selected st) < MAX_FILES_TO_REVIEW" by simp
    show ?thesis
    proof (cases "getBlob f")
      case None
      with lt have "step st f = Some st" by (rule cases(2))
      with None Cons.IH [of st] show ?thesis by (simp add: fetchable_Cons)
    next
      case (Some b)
      define ff where "ff = \<lparr>path = path f, content = normalizeContent b\<rparr>"
      have fc: "fetchable getBlob (f # fs) = ff # fetchable getBlob fs"
        using Some by (simp add: fetchable_Cons ff_def)
      note s = cases(3) [OF lt Some, folded ff_def, unfolded Let_def]
      show ?thesis
      proof (cases "limit < of_int (totalEstimatedTokens st + estimatedTokens M R ff)")
        case True
        with s have "step st f = None" by simp
        with True lt show ?thesis by (intro exI [of _ 0]) (simp add: fc estimated_total_def)
      next
        case over: False
        define st' where "st' = \<lparr>selected = selected st @ [ff],
                       totalEstimatedTokens = totalEstimatedTokens st + estimatedTokens M R ff\<rparr>"
        from over s have st: "step st f = Some st'" by (simp add: st'_def)
        from Cons.IH [of st'] obtain n where n:
          "n \<le> length (fetchable getBlob fs)"
          "selected (select_loop step st' fs) = selected st' @ take n (fetchable getBlob fs)"
          "totalEstimatedTokens (select_loop step st' fs) =
             totalEstimatedTokens st' + estimated_total M R (take n (fetchable getBlob fs))"
          "n < length (fetchable getBlob fs) \<longrightarrow>
            MAX_FILES_TO_REVIEW \<le> length (selected (select_loop step st' fs))
            \<or> limit < of_int (totalEstimatedTokens (select_loop step st' fs)
                          + estimatedTokens M R (fetchable getBlob fs ! n))"
          "length (selected st') \<le> MAX_FILES_TO_REVIEW \<longrightarrow>
            length (selected (select_loop step st' fs)) \<le> MAX_FILES_TO_REVIEW"
          "of_int (totalEstimatedTokens st') \<le> limit \<longrightarrow>
            of_int (totalEstimatedTokens (select_loop step st' fs)) \<le> limit"
          "\<forall>k. 0 < k \<and> k \<le> n \<longrightarrow>
            of_int (totalEstimatedTokens st' + estimated_total M R (take k (fetchable getBlob fs)))
              \<le> limit"
          by blast
        have loop: "select_loop step st (f # fs) = select_loop step st' fs"
          using st by simp
        have len': "length (selected st') \<le> MAX_FILES_TO_REVIEW"
          using lt by (simp add: st'_def)
        have tot': "of_int (totalEstimatedTokens st') \<le> limit"
          using over by (simp add: st'_def)
        have run: "\<forall>k. 0 < k \<and> k \<le> Suc n \<longrightarrow>
            of_int (totalEstimatedTokens st
                    + estimated_total M R (take k (ff # fetchable getBlob fs))) \<le> limit"
        proof (intro allI impI)
          fix k assume "0 < k \<and> k \<le> Suc n"
          then obtain j where k: "k = Suc j" and j: "j \<le> n" by (cases k) auto
          show "of_int (totalEstimatedTokens st
                    + estimated_total M R (take k (ff # fetchable getBlob fs))) \<le> limit"
          proof (cases "j = 0")
            case True
            with tot' show ?thesis by (simp add: k st'_def estimated_total_def)
          next
            case False
            with j n(7) have "of_int (totalEstimatedTokens st'
                + estimated_total M R (take j (fetchable getBlob fs))) \<le> limit" by simp
            then show ?thesis by (simp add: k st'_def estimated_total_def add.assoc)
          qed
        qed
        show ?thesis
          unfolding loop fc
          using n(1-6) len' tot' run
          by (intro exI [of _ "Suc n"]) (simp add: st'_def estimated_total_def)
      qed
    qed
  qed
qed



lemma select_states_hd: "hd (select_states step st files) = st"
  by (cases files) simp_all



lemma round_half_even_nonneg: "0 \<le> n \<Longrightarrow> 0 \<le> round_half_even n k"
  by (auto simp: round_half_even_def Let_def pos_imp_zdiv_nonneg_iff)

lemma times_0_7_nonneg:
  assumes "0 \<le> m"
  shows "0 \<le> times_0_7 m"
proof -
  have "0 \<le> round_53_bits (\<bar>m\<bar> * 6305039478318694)"
    unfolding round_53_bits_def Let_def
    by (intro mult_nonneg_nonneg round_half_even_nonneg) simp_all
  with assms have "0 \<le> sgn m * round_53_bits (\<bar>m\<bar> * 6305039478318694)"
    by (intro mult_nonneg_nonneg) (simp_all add: sgn_if)
  then have "(0::rat) \<le> of_int (sgn m * round_53_bits (\<bar>m\<bar> * 6305039478318694))"
    by (simp only: of_int_0_le_iff)
  then show ?thesis unfolding times_0_7_def by (rule divide_nonneg_nonneg) simp
qed

lemma pass_invariant:
  "\<exists>n. n \<le> length (fetchable getBlob files)
      \<and> selectAndFetchFilesForReview M R getBlob files maxInputTokens = take n (fetchable getBlob files)
      \<and> totalEstimatedTokens (select_pass M R getBlob files maxInputTokens) =
          estimated_total M R (take n (fetchable getBlob files))
      \<and> (n < length (fetchable getBlob files) \<longrightarrow>
            MAX_FILES_TO_REVIEW \<le> n
            \<or> times_0_7 maxInputTokens < of_int (estimated_total M R (take (Suc n) (fetchable getBlob files))))
      \<and> n \<le> MAX_FILES_TO_REVIEW
      \<and> (0 \<le> maxInputTokens \<longrightarrow>
            of_int (estimated_total M R (take n (fetchable getBlob files))) \<le> times_0_7 maxInputTokens)
      \<and> (\<forall>k. 0 < k \<and> k \<le> n \<longrightarrow>
            of_int (estimated_total M R (take k (fetchable getBlob files))) \<le> times_0_7 maxInputTokens)"
proof -
  let ?st0 = "\<lparr>selected = [], totalEstimatedTokens = 0\<rparr>"
  let ?cands = "fetchable getBlob files"
  let ?res = "select_pass M R getBlob files maxInputTokens"
  have res: "select_loop (select_file \<lceil>of_nat (length M) * TOKEN_ESTIMATION_RATIO\<rceil>
                \<lceil>of_nat (length R) * TOKEN_ESTIMATION_RATIO\<rceil> getBlob (times_0_7 maxInputTokens))
              ?st0 files = ?res"
    by (simp add: select_pass_def Let_def)
  have "\<exists>n. n \<le> length ?cands
      \<and> selected ?res = take n ?cands
      \<and> totalEstimatedTokens ?res = estimated_total M R (take n ?cands)
      \<and> (n < length ?cands \<longrightarrow>
            MAX_FILES_TO_REVIEW \<le> length (selected ?res)
            \<or> times_0_7 maxInputTokens < of_int (totalEstimatedTokens ?res + estimatedTokens M R (?cands ! n)))
      \<and> length (selected ?res) \<le> MAX_FILES_TO_REVIEW
      \<and> (0 \<le> times_0_7 maxInputTokens \<longrightarrow> of_int (totalEstimatedTokens ?res) \<le> times_0_7 maxInputTokens)
      \<and> (\<forall>k. 0 < k \<and> k \<le> n \<longrightarrow>
            of_int (estimated_total M R (take k ?cands)) \<le> times_0_7 maxInputTokens)"
    using select_loop_invariant [of getBlob files M R "times_0_7 maxInputTokens" ?st0]
    unfolding res
    by (simp only: selection.select_convs append_Nil add_0 list.size(3) le0 of_int_0 simp_thms)
  then obtain n where n: "n \<le> length ?cands"
    and sel: "selected ?res = take n ?cands"
    and tot: "totalEstimatedTokens ?res = estimated_total M R (take n ?cands)"
    and stop: "n < length ?cands \<longrightarrow>
            MAX_FILES_TO_REVIEW \<le> length (selected ?res)
            \<or> times_0_7 maxInputTokens < of_int (totalEstimatedTokens ?res + estimatedTokens M R (?cands ! n))"
    and cap: "length (selected ?res) \<le> MAX_FILES_TO_REVIEW"
    and lim: "0 \<le> times_0_7 maxInputTokens \<longrightarrow> of_int (totalEstimatedTokens ?res) \<le> times_0_7 maxInputTokens"
    and run: "\<forall>k. 0 < k \<and> k \<le> n \<longrightarrow>
            of_int (estimated_total M R (take k ?cands)) \<le> times_0_7 maxInputTokens"
    by blast
  have len: "length (selected (select_pass M R getBlob files maxInputTokens)) = n"
    using n sel by simp
  have next_total: "estimated_total M R (take (Suc n) ?cands) =
      estimated_total M R (take n ?cands) + estimatedTokens M R (?cands ! n)" if "n < length ?cands"
    using that by (simp add: take_Suc_conv_app_nth estimated_total_def)
  have stop': "n < length ?cands \<longrightarrow> MAX_FILES_TO_REVIEW \<le> n
            \<or> times_0_7 maxInputTokens < of_int (estimated_total M R (take (Suc n) ?cands))"
    using stop next_total unfolding len tot by auto
  have lim': "0 \<le> maxInputTokens \<longrightarrow>
            of_int (estimated_total M R (take n ?cands)) \<le> times_0_7 maxInputTokens"
    using lim times_0_7_nonneg [of maxInputTokens] unfolding tot by blast
  have cap': "n \<le> MAX_FILES_TO_REVIEW" using cap unfolding len .
  have sel': "selectAndFetchFilesForReview M R getBlob files maxInputTokens = take n ?cands"
    using sel by (simp add: selectAndFetchFilesForReview_def)
  from n sel' tot stop' cap' lim' run show ?thesis by blast
qed







text \<open>
  Claim C1. The selection is a prefix of the input with the files whose fetch failed
  removed (each remaining file with its normalized content), in the order of the input:
  a failed fetch only drops that file. It has at most \<open>MAX_FILES_TO_REVIEW\<close> files, and
  every file of it was accepted with the running total within the limit: for every \<open>k\<close>
  up to its length, the estimates of the first \<open>k\<close> fetchable files add up to at most the
  limit. When the selection is a proper prefix, the scan stopped at the next fetchable
  file, either because the count cap was reached or because that file's estimate takes
  the total over the limit, and no later file is selected. The selection is thus the
  longest such prefix: any prefix of at most \<open>MAX_FILES_TO_REVIEW\<close> fetchable files whose
  running totals all stay within the limit is no longer than the selection.
\<close>

theorem selection_is_priority_prefix:
  "prefix (selectAndFetchFilesForReview M R getBlob files maxInputTokens) (fetchable getBlob files)
   \<and> length (selectAndFetchFilesForReview M R getBlob files maxInputTokens) \<le> MAX_FILES_TO_REVIEW
   \<and> (\<forall>k. 0 < k \<and> k \<le> length (selectAndFetchFilesForReview M R getBlob files maxInputTokens) \<longrightarrow>
         of_int (estimated_total M R (take k (fetchable getBlob files))) \<le> times_0_7 maxInputTokens)
   \<and> (length (selectAndFetchFilesForReview M R getBlob files maxInputTokens)
        < length (fetchable getBlob files) \<longrightarrow>
      length (selectAndFetchFilesForReview M R getBlob files maxInputTokens) = MAX_FILES_TO_REVIEW
      \<or> times_0_7 maxInputTokens <
          of_int (estimated_total M R
            (take (Suc (length (selectAndFetchFilesForReview M R getBlob files maxInputTokens)))
               (fetchable getBlob files))))
   \<and> (\<forall>k. k \<le> length (fetchable getBlob files) \<and> k \<le> MAX_FILES_TO_REVIEW
          \<and> (\<forall>j. 0 < j \<and> j \<le> k \<longrightarrow>
                of_int (estimated_total M R (take j (fetchable getBlob files))) \<le> times_0_7 maxInputTokens)
        \<longrightarrow> k \<le> length (selectAndFetchFilesForReview M R getBlob files maxInputTokens))"
proof -
  from pass_invariant [of getBlob files M R maxInputTokens]
  obtain n where n: "n \<le> length (fetchable getBlob files)"
    and sel: "selectAndFetchFilesForReview M R getBlob files maxInputTokens =
               take n (fetchable getBlob files)"
    and stop: "n < length (fetchable getBlob files) \<longrightarrow>
            MAX_FILES_TO_REVIEW \<le> n
            \<or> times_0_7 maxInputTokens < of_int (estimated_total M R (take (Suc n) (fetchable getBlob files)))"
    and cap: "n \<le> MAX_FILES_TO_REVIEW"
    and run: "\<forall>k. 0 < k \<and> k \<le> n \<longrightarrow>
            of_int (estimated_total M R (take k (fetchable getBlob files))) \<le> times_0_7 maxInputTokens"
    by blast
  have len: "length (selectAndFetchFilesForReview M R getBlob files maxInputTokens) = n"
    using n sel by simp
  have pre: "prefix (selectAndFetchFilesForReview M R getBlob files maxInputTokens) (fetchable getBlob files)"
    unfolding sel by (rule take_is_prefix)
  have stop': "n < length (fetchable getBlob files) \<longrightarrow> n = MAX_FILES_TO_REVIEW
      \<or> times_0_7 maxInputTokens < of_int (estimated_total M R (take (Suc n) (fetchable getBlob files)))"
    using stop cap by auto
  have longest: "k \<le> n"
    if k: "k \<le> length (fetchable getBlob files)" "k \<le> MAX_FILES_TO_REVIEW"
      and within: "\<forall>j. 0 < j \<and> j \<le> k \<longrightarrow>
            of_int (estimated_total M R (take j (fetchable getBlob files))) \<le> times_0_7 maxInputTokens"
    for k
  proof (rule ccontr)
    assume "\<not> k \<le> n"
    then have lt: "n < k" by simp
    with k(1) have "n < length (fetchable getBlob files)" by simp
    with stop' have "n = MAX_FILES_TO_REVIEW
      \<or> times_0_7 maxInputTokens < of_int (estimated_total M R (take (Suc n) (fetchable getBlob files)))"
      by blast
    then show False
    proof
      assume "n = MAX_FILES_TO_REVIEW"
      with lt k(2) show False by simp
    next
      assume over: "times_0_7 maxInputTokens
          < of_int (estimated_total M R (take (Suc n) (fetchable getBlob files)))"
      from lt within have "of_int (estimated_total M R (take (Suc n) (fetchable getBlob files)))
          \<le> times_0_7 maxInputTokens" by simp
      with over show False by simp
    qed
  qed
  from pre cap run stop' longest show ?thesis unfolding len by blast
qed

theorem selection_is_priority_prefix_witness:
  "selectAndFetchFilesForReview main_template regular_template failing_first prioritized_files 16 =
     [\<lparr>path = js ''x/Main.py'', content = js ''x = 1''\<rparr>, \<lparr>path = js ''a.py'', content = js ''x = 1''\<rparr>]
   \<and> prefix (selectAndFetchFilesForReview main_template regular_template failing_first prioritized_files 16)
       (fetchable failing_first prioritized_files)
   \<and> length (fetchable failing_first prioritized_files) = 4
   \<and> of_int (estimated_total main_template regular_template
         (take 1 (fetchable failing_first prioritized_files))) \<le> times_0_7 16
   \<and> of_int (estimated_total main_template regular_template
         (take 2 (fetchable failing_first prioritized_files))) \<le> times_0_7 16
   \<and> times_0_7 16 <
       of_int (estimated_total main_template regular_template
         (take 3 (fetchable failing_first prioritized_files)))"
proof -
  have sel: "selectAndFetchFilesForReview main_template regular_template failing_first prioritized_files 16 =
     [\<lparr>path = js ''x/Main.py'', content = js ''x = 1''\<rparr>, \<lparr>path = js ''a.py'', content = js ''x = 1''\<rparr>]"
    by code_simp
  have len: "length (fetchable failing_first prioritized_files) = 4"
    by code_simp
  note inst = selection_is_priority_prefix
    [of main_template regular_template failing_first prioritized_files 16, unfolded sel len]
  from inst have pre: "prefix [\<lparr>path = js ''x/Main.py'', content = js ''x = 1''\<rparr>,
        \<lparr>path = js ''a.py'', content = js ''x = 1''\<rparr>] (fetchable failing_first prioritized_files)"
    by blast
  from inst have run: "\<forall>k. 0 < k \<and> k \<le> length [\<lparr>path = js ''x/Main.py'', content = js ''x = 1''\<rparr>,
        \<lparr>path = js ''a.py'', content = js ''x = 1''\<rparr>] \<longrightarrow>
      of_int (estimated_total main_template regular_template
         (take k (fetchable failing_first prioritized_files))) \<le> times_0_7 16"
    by blast
  from run [rule_format, of 1] have r1: "of_int (estimated_total main_template regular_template
         (take 1 (fetchable failing_first prioritized_files))) \<le> times_0_7 16" by simp
  from run [rule_format, of 2] have r2: "of_int (estimated_total main_template regular_template
         (take 2 (fetchable failing_first prioritized_files))) \<le> times_0_7 16" by simp
  from inst have "times_0_7 16 <
       of_int (estimated_total main_template regular_template
         (take 3 (fetchable failing_first prioritized_files)))"
    by (simp add: MAX_FILES_TO_REVIEW_def eval_nat_numeral)
  with sel pre len r1 r2 show ?thesis by simp
qed



section \<open>Properties of the result combiner\<close>

lemma suffix_last: "suffix xs ys \<Longrightarrow> xs \<noteq> [] \<Longrightarrow> last ys = last xs"
  by (auto simp: suffix_def)

lemma partial_review_note_last: "partial_review_note \<noteq> [] \<and> last partial_review_note = 0x2A"
  by (simp add: partial_review_note_def js_def)

lemma summary_list_close_last: "summary_list_close \<noteq> [] \<and> last summary_list_close = 0x0A"
  by (simp add: summary_list_close_def js_def)

lemma not_suffix_note_close: "\<not> suffix partial_review_note (xs @ summary_list_close)"
proof
  assume "suffix partial_review_note (xs @ summary_list_close)"
  then have "last (xs @ summary_list_close) = last partial_review_note"
    using partial_review_note_last by (metis suffix_last)
  then show False
    using partial_review_note_last summary_list_close_last by simp
qed

lemma sublist_mid: "sublist xs (ps @ xs @ ss)"
  by (auto simp: sublist_def)

lemma join_lines:
  "join [0x000A] ps @ [0x000A] =
     (if ps = [] then [0x000A] else concat (map (\<lambda>p. p @ [0x000A]) ps))"
  by (induction "[0x000A] :: js_string" ps rule: join.induct) simp_all

lemma listing_spec_path_list:
  "[0x0060, 0x0060, 0x0060, 0x000A] @ join [0x000A] (map path fs) @ summary_list_close =
     spec_path_list fs"
proof -
  have "join [0x000A] (map path fs) @ summary_list_close =
      (join [0x000A] (map path fs) @ [0x000A]) @ [0x0060, 0x0060, 0x0060, 0x000A]"
    by (simp add: summary_list_close_def)
  also have "join [0x000A] (map path fs) @ [0x000A] =
      (if fs = [] then [0x000A] else concat (map (\<lambda>f. path f @ [0x000A]) fs))"
    by (simp add: join_lines comp_def)
  finally show ?thesis by (simp add: spec_path_list_def)
qed

lemma summary_list_open_fence:
  "\<exists>pre. summary_list_open = pre @ [0x0060, 0x0060, 0x0060, 0x000A]"
  by (rule exI [of _ "js ''**'' @ [0x5DF2, 0x53D1, 0x9001, 0x81F3] @ js '' AI '' @
        [0x5BA1, 0x6838, 0x7684, 0x6587, 0x4EF6, 0x6E05, 0x5355] @ js ''**'' @ [0x000A]"])
     (simp add: summary_list_open_def)

text \<open>The character U+6CE8, with which the text of the note begins, marks the note.\<close>

lemma note_mark: "0x6CE8 \<in> set partial_review_note"
  by (simp add: partial_review_note_def)

lemma digit_no_mark: "d < 10 \<Longrightarrow> digit d \<noteq> 0x6CE8"
proof -
  assume "d < 10"
  then have "d \<in> {0, 1, 2, 3, 4, 5, 6, 7, 8, 9}" by auto
  then show ?thesis by (auto simp: digit_def)
qed

lemma toString_no_mark: "0x6CE8 \<notin> set (toString n)"
proof (induction n rule: toString.induct)
  case (1 n)
  show ?case
  proof (cases "n < 10")
    case True
    then show ?thesis using digit_no_mark [of n] by (subst toString.simps) simp
  next
    case False
    have "n mod 10 < 10" by simp
    then have "digit (n mod 10) \<noteq> 0x6CE8" by (rule digit_no_mark)
    with False "1.IH" show ?thesis by (subst toString.simps) auto
  qed
qed

lemma set_join: "set (join sep ps) \<subseteq> set sep \<union> \<Union> (set ` set ps)"
  by (induction sep ps rule: join.induct) auto

lemma template_no_mark:
  "0x6CE8 \<notin> set summary_heading" "0x6CE8 \<notin> set summary_statistics"
  "0x6CE8 \<notin> set summary_total_label" "0x6CE8 \<notin> set summary_total_unit"
  "0x6CE8 \<notin> set summary_selected_label" "0x6CE8 \<notin> set summary_list_open"
  "0x6CE8 \<notin> set summary_list_close" "0x6CE8 \<notin> set (js '' / '')"
  by (simp_all add: summary_heading_def summary_statistics_def summary_total_label_def
       summary_total_unit_def summary_selected_label_def summary_list_open_def
       summary_list_close_def js_def)

lemma sublist_set: "sublist xs ys \<Longrightarrow> set xs \<subseteq> set ys"
  by (auto simp: sublist_def)

text \<open>
  Claim C9, amended. On a successful completion result the combiner returns success, and
  its text is the raw review followed by a summary. The summary contains the fraction
  \<open>n / totalFileCount\<close> (\<open>n\<close> the number of selected files) and the list of the selected
  paths, one on each line between two code fences. It ends with the partial-review note
  exactly when \<open>n < totalFileCount\<close>; and when no selected path contains the character
  U+6CE8, with which the text of the note begins, it contains the note exactly when
  \<open>n < totalFileCount\<close>. On an unsuccessful result the combiner returns a failure with a
  non-empty message and no review text; a completion call that threw or returned an
  empty body is such a result.
\<close>

theorem combineReviewResults_summary:
  "(success reviewResult \<longrightarrow>
      (\<exists>summary.
         combineReviewResults reviewResult totalFileCount selectedFiles =
           \<lparr>success = True, review = Some (str (review reviewResult) @ summary), error = None\<rparr>
         \<and> sublist (toString (length selectedFiles) @ js '' / '' @ toString totalFileCount) summary
         \<and> sublist (spec_path_list selectedFiles) summary
         \<and> (suffix partial_review_note summary \<longleftrightarrow> length selectedFiles < totalFileCount)
         \<and> ((\<forall>f\<in>set selectedFiles. 0x6CE8 \<notin> set (path f)) \<longrightarrow>
              (sublist partial_review_note summary \<longleftrightarrow> length selectedFiles < totalFileCount))))
   \<and> (\<not> success reviewResult \<longrightarrow>
      (\<exists>message. message \<noteq> [] \<and>
         combineReviewResults reviewResult totalFileCount selectedFiles =
           \<lparr>success = False, review = None, error = Some message\<rparr>))
   \<and> (\<forall>completion. completion = Threw \<or> completion = Returned None \<or> completion = Returned (Some []) \<longrightarrow>
          \<not> success (combineReviewResults (reviewFileBatch completion selectedFiles)
                         totalFileCount selectedFiles)
          \<and> review (combineReviewResults (reviewFileBatch completion selectedFiles)
                         totalFileCount selectedFiles) = None)"
proof (intro conjI impI allI)
  assume ok: "success reviewResult"
  define counts where "counts =
    summary_heading @ summary_statistics @
    summary_total_label @ toString totalFileCount @ summary_total_unit @
    summary_selected_label @ toString (length selectedFiles) @ js '' / '' @
    toString totalFileCount @ [0x000A]"
  define base where "base = counts @ summary_list_open @ join [0x000A] (map path selectedFiles)"
  define summary where "summary =
    (base @ summary_list_close) @
    (if length selectedFiles < totalFileCount then partial_review_note else [])"
  have eq: "combineReviewResults reviewResult totalFileCount selectedFiles =
      \<lparr>success = True, review = Some (str (review reviewResult) @ summary), error = None\<rparr>"
    using ok by (simp add: combineReviewResults_def Let_def summary_def base_def counts_def)
  have frac: "sublist (toString (length selectedFiles) @ js '' / '' @ toString totalFileCount) summary"
    unfolding summary_def base_def counts_def sublist_def
    by (rule exI [of _ "summary_heading @ summary_statistics @
          summary_total_label @ toString totalFileCount @ summary_total_unit @
          summary_selected_label"], rule exI [of _ "[0x000A] @
          summary_list_open @ join [0x000A] (map path selectedFiles) @ summary_list_close @
          (if length selectedFiles < totalFileCount then partial_review_note else [])"]) simp
  obtain pre where pre: "summary_list_open = pre @ [0x0060, 0x0060, 0x0060, 0x000A]"
    using summary_list_open_fence by blast
  have "summary = (counts @ pre) @
      ([0x0060, 0x0060, 0x0060, 0x000A] @ join [0x000A] (map path selectedFiles) @ summary_list_close) @
      (if length selectedFiles < totalFileCount then partial_review_note else [])"
    unfolding summary_def base_def pre by simp
  then have "summary = (counts @ pre) @ spec_path_list selectedFiles @
      (if length selectedFiles < totalFileCount then partial_review_note else [])"
    by (simp only: listing_spec_path_list)
  then have paths: "sublist (spec_path_list selectedFiles) summary"
    unfolding sublist_def by blast
  have ends: "suffix partial_review_note summary \<longleftrightarrow> length selectedFiles < totalFileCount"
  proof (cases "length selectedFiles < totalFileCount")
    case True
    then show ?thesis by (simp add: summary_def suffix_def)
  next
    case False
    then show ?thesis using not_suffix_note_close [of base] by (simp add: summary_def)
  qed
  have holds: "sublist partial_review_note summary \<longleftrightarrow> length selectedFiles < totalFileCount"
    if clean: "\<forall>f\<in>set selectedFiles. 0x6CE8 \<notin> set (path f)"
  proof (cases "length selectedFiles < totalFileCount")
    case True
    then have "suffix partial_review_note summary" using ends by simp
    with True show ?thesis by (simp add: suffix_imp_sublist)
  next
    case False
    have "0x6CE8 \<notin> set (join [0x000A] (map path selectedFiles))"
      using set_join [of "[0x000A]" "map path selectedFiles"] clean by auto
    then have "0x6CE8 \<notin> set summary"
      using False template_no_mark toString_no_mark
      by (simp add: summary_def base_def counts_def)
    with note_mark have "\<not> sublist partial_review_note summary"
      using sublist_set by blast
    with False show ?thesis by simp
  qed
  from eq frac paths ends holds
  show "\<exists>summary.
         combineReviewResults reviewResult totalFileCount selectedFiles =
           \<lparr>success = True, review = Some (str (review reviewResult) @ summary), error = None\<rparr>
         \<and> sublist (toString (length selectedFiles) @ js '' / '' @ toString totalFileCount) summary
         \<and> sublist (spec_path_list selectedFiles) summary
         \<and> (suffix partial_review_note summary \<longleftrightarrow> length selectedFiles < totalFileCount)
         \<and> ((\<forall>f\<in>set selectedFiles. 0x6CE8 \<notin> set (path f)) \<longrightarrow>
              (sublist partial_review_note summary \<longleftrightarrow> length selectedFiles < totalFileCount))"
    by blast
next
  assume "\<not> success reviewResult"
  then show "\<exists>message. message \<noteq> [] \<and>
         combineReviewResults reviewResult totalFileCount selectedFiles =
           \<lparr>success = False, review = None, error = Some message\<rparr>"
    by (auto simp: combineReviewResults_def or_else_def js_def split: option.splits)
next
  fix completion
  assume c: "completion = Threw \<or> completion = Returned None \<or> completion = Returned (Some [])"
  then have "\<not> success (reviewFileBatch completion selectedFiles)"
    by (auto simp: reviewFileBatch_def or_else_def Let_def)
  then show "\<not> success (combineReviewResults (reviewFileBatch completion selectedFiles)
                         totalFileCount selectedFiles)"
    and "review (combineReviewResults (reviewFileBatch completion selectedFiles)
                         totalFileCount selectedFiles) = None"
    by (simp_all add: combineReviewResults_def)
qed

theorem combineReviewResults_summary_witness:
  "success looks_good
   \<and> list_all (\<lambda>f. 0x6CE8 \<notin> set (path f)) four_files
   \<and> (\<exists>summary.
         combineReviewResults looks_good 10 four_files =
           \<lparr>success = True, review = Some (js ''LGTM'' @ summary), error = None\<rparr>
         \<and> sublist (js ''4 / 10'') summary
         \<and> sublist ([0x0060, 0x0060, 0x0060, 0x000A] @ js ''main.py'' @ [0x000A] @ js ''a.py'' @
              [0x000A] @ js ''b.py'' @ [0x000A] @ js ''c.py'' @ [0x000A, 0x0060, 0x0060, 0x0060, 0x000A])
              summary
         \<and> suffix partial_review_note summary
         \<and> sublist partial_review_note summary)
   \<and> (\<exists>summary.
         combineReviewResults looks_good 4 four_files =
           \<lparr>success = True, review = Some (js ''LGTM'' @ summary), error = None\<rparr>
         \<and> sublist (js ''4 / 4'') summary
         \<and> \<not> sublist partial_review_note summary)
   \<and> \<not> success \<lparr>success = False, review = None, error = None\<rparr>
   \<and> (\<exists>message. message \<noteq> [] \<and>
         combineReviewResults \<lparr>success = False, review = None, error = None\<rparr> 10 four_files =
           \<lparr>success = False, review = None, error = Some message\<rparr>)
   \<and> \<not> success (combineReviewResults (reviewFileBatch (Returned (Some [])) four_files) 10 four_files)"
proof -
  let ?bad = "\<lparr>success = False, review = None, error = None\<rparr>"
  have ok: "success looks_good" and r: "str (review looks_good) = js ''LGTM''"
    by (simp_all add: looks_good_def str_def)
  have clean': "list_all (\<lambda>f. 0x6CE8 \<notin> set (path f)) four_files" by code_simp
  then have clean: "\<forall>f\<in>set four_files. 0x6CE8 \<notin> set (path f)" by (simp add: list_all_iff)
  have n: "length four_files = 4" by (simp add: four_files_def)
  have t4: "toString 4 = js ''4''" and t10: "toString 10 = js ''10''" by code_simp+
  have f: "toString 4 @ js '' / '' @ toString 10 = js ''4 / 10''"
    and f4: "toString 4 @ js '' / '' @ toString 4 = js ''4 / 4''"
    by (simp_all add: t4 t10 js_def)
  have l: "spec_path_list four_files =
      [0x0060, 0x0060, 0x0060, 0x000A] @ js ''main.py'' @ [0x000A] @ js ''a.py'' @
              [0x000A] @ js ''b.py'' @ [0x000A] @ js ''c.py'' @ [0x000A, 0x0060, 0x0060, 0x0060, 0x000A]"
    by (simp add: spec_path_list_def four_files_def)
  from combineReviewResults_summary [of looks_good 10 four_files] ok clean
  have a: "\<exists>summary.
         combineReviewResults looks_good 10 four_files =
           \<lparr>success = True, review = Some (js ''LGTM'' @ summary), error = None\<rparr>
         \<and> sublist (js ''4 / 10'') summary
         \<and> sublist ([0x0060, 0x0060, 0x0060, 0x000A] @ js ''main.py'' @ [0x000A] @ js ''a.py'' @
              [0x000A] @ js ''b.py'' @ [0x000A] @ js ''c.py'' @ [0x000A, 0x0060, 0x0060, 0x0060, 0x000A])
              summary
         \<and> suffix partial_review_note summary
         \<and> sublist partial_review_note summary"
    unfolding f n r l by simp
  from combineReviewResults_summary [of looks_good 4 four_files] ok clean
  have a4: "\<exists>summary.
         combineReviewResults looks_good 4 four_files =
           \<lparr>success = True, review = Some (js ''LGTM'' @ summary), error = None\<rparr>
         \<and> sublist (js ''4 / 4'') summary
         \<and> \<not> sublist partial_review_note summary"
    unfolding f4 n r by simp blast
  from combineReviewResults_summary [of ?bad 10 four_files]
  have b: "\<exists>message. message \<noteq> [] \<and>
         combineReviewResults ?bad 10 four_files =
           \<lparr>success = False, review = None, error = Some message\<rparr>"
    and c: "\<not> success (combineReviewResults (reviewFileBatch (Returned (Some [])) four_files) 10 four_files)"
    by simp_all
  from ok clean' a a4 b c show ?thesis by simp
qed

text \<open>
  A repository whose one Python file is named after the note, reviewed in full: every
  file is selected, and the summary, hence the text returned, contains the note.
\<close>

theorem note_in_path_counterexample:
  "success (combineReviewResults looks_good 1 noted_files)
   \<and> length noted_files = 1
   \<and> sublist partial_review_note (or_else (review (combineReviewResults looks_good 1 noted_files)) [])
   \<and> sublist partial_review_note
       (drop (length (js ''LGTM'')) (or_else (review (combineReviewResults looks_good 1 noted_files)) []))"
  by code_simp
section \<open>Properties of the matcher\<close>

subsection \<open>General facts about the matcher\<close>

lemma canonicalize_False [simp]: "canonicalize False c = c"
  by (simp add: canonicalize_def)

lemma str_matches_prefix: "str_matches False w s \<longleftrightarrow> prefix w s"
proof (induction w arbitrary: s)
  case Nil
  show ?case by simp
next
  case (Cons a w)
  show ?case by (cases s) (simp_all add: Cons.IH)
qed

lemmas matcher_Star = matcher.simps(4)

lemma matcher_Star_disjoint:
  assumes "\<And>c cs p caps. atom_matches ic a c \<Longrightarrow> matcher ic k (c # cs) p caps = None"
  shows "matcher ic (Rx (Star a) # k) s p caps =
         matcher ic k (dropWhile (atom_matches ic a) s)
           (p + length (takeWhile (atom_matches ic a) s)) caps"
proof (induction s arbitrary: p)
  case Nil
  show ?case by simp
next
  case (Cons c cs)
  show ?case
  proof (cases "atom_matches ic a c")
    case True
    show ?thesis
    proof (cases "matcher ic (Rx (Star a) # k) cs (Suc p) caps")
      case None
      with True Cons [of "Suc p"] assms [OF True, of cs p caps] show ?thesis by simp
    next
      case (Some r)
      with True Cons [of "Suc p"] show ?thesis by simp
    qed
  next
    case False
    then show ?thesis by simp
  qed
qed

lemma matcher_Star_total:
  assumes "\<And>s p caps. matcher ic k s p caps \<noteq> None"
  shows "matcher ic (Rx (Star a) # k) s p caps =
         matcher ic k (dropWhile (atom_matches ic a) s)
           (p + length (takeWhile (atom_matches ic a) s)) caps"
proof (induction s arbitrary: p)
  case Nil
  show ?case by simp
next
  case (Cons c cs)
  show ?case
  proof (cases "atom_matches ic a c")
    case True
    from assms have "matcher ic k (dropWhile (atom_matches ic a) cs)
           (Suc p + length (takeWhile (atom_matches ic a) cs)) caps \<noteq> None" .
    with True Cons [of "Suc p"] show ?thesis by (auto split: option.splits)
  next
    case False
    then show ?thesis by simp
  qed
qed


declare matcher.simps(4) [simp del]

lemma atom_matches_Space: "atom_matches ic Space = isWhiteSpace"
  by (rule ext) simp

lemma star_space_chr:
  assumes "\<not> isWhiteSpace a"
  shows "matcher False (Rx (Star Space) # Rx (Atom (Chr a)) # k) s p caps =
         matcher False (Rx (Atom (Chr a)) # k) (dropWhile isWhiteSpace s)
           (p + length (takeWhile isWhiteSpace s)) caps"
proof -
  have "matcher False (Rx (Atom (Chr a)) # k) (c # cs) q cp = None" if "atom_matches False Space c"
    for c cs q cp
    using that assms by auto
  from matcher_Star_disjoint [of False Space "Rx (Atom (Chr a)) # k", OF this]
  show ?thesis by (simp add: atom_matches_Space)
qed

lemma star_space_str:
  assumes "w \<noteq> []" "\<not> isWhiteSpace (hd w)"
  shows "matcher False (Rx (Star Space) # Rx (Str w) # k) s p caps =
         matcher False (Rx (Str w) # k) (dropWhile isWhiteSpace s)
           (p + length (takeWhile isWhiteSpace s)) caps"
proof -
  have "matcher False (Rx (Str w) # k) (c # cs) q cp = None" if "atom_matches False Space c"
    for c cs q cp
    using that assms by (cases w) auto
  from matcher_Star_disjoint [of False Space "Rx (Str w) # k", OF this]
  show ?thesis by (simp add: atom_matches_Space)
qed

lemma retrigger_label_hd: "retrigger_label \<noteq> [] \<and> \<not> isWhiteSpace (hd retrigger_label)"
  by (simp add: retrigger_label_def isWhiteSpace_def)

lemma ch_simps [simp]:
  "ch CHR ''-'' = 0x2D" "ch CHR ''*'' = 0x2A" "ch CHR ''['' = 0x5B" "ch CHR '']'' = 0x5D"
  "ch CHR ''x'' = 0x78" "ch CHR ''X'' = 0x58" "ch CHR '' '' = 0x20"
  by (simp_all add: ch_def)

lemma not_space [simp]: "\<not> isWhiteSpace 0x5B" "\<not> isWhiteSpace 0x5D" "\<not> isWhiteSpace 0x2D"
  "\<not> isWhiteSpace 0x2A" "\<not> isWhiteSpace 0x78" "\<not> isWhiteSpace 0x58" "\<not> isWhiteSpace 0x23"
  "isWhiteSpace 0x20" "isWhiteSpace 0x0A"
  by (simp_all add: isWhiteSpace_def)



subsection \<open>The shape of a checked box\<close>







lemma parse_box_not_dash:
  "parse_box (c # t) \<noteq> None \<Longrightarrow> c = 0x2D \<or> c = 0x2A"
  by (simp add: parse_box_def split: if_splits)


subsection \<open>Unchecking every box\<close>









section \<open>Properties of the review orchestrator: the edit gate\<close>

lemma js_includes_prefix: "prefix p s \<Longrightarrow> js_includes s p"
  by (cases s) auto

lemma success_title_mark: "prefix success_mark success_title"
  by (simp add: success_mark_def success_title_def js_def)

lemma kind_of_Success_includes:
  assumes "kind_of text = Some Success"
  shows "js_includes text success_mark"
proof -
  from assms have "prefix success_title text"
    by (simp add: kind_of_def split: if_splits)
  with success_title_mark have "prefix success_mark text"
    by (rule prefix_order.order_trans)
  then show ?thesis by (rule js_includes_prefix)
qed

lemma kind_of_Started_includes:
  assumes "kind_of text = Some Started"
  shows "js_includes text started_title"
proof -
  from assms have "prefix started_title text"
    by (simp add: kind_of_def split: if_splits)
  then show ?thesis by (rule js_includes_prefix)
qed

lemma kind_of_commentBody: "kind_of (commentBody t) = Some (template_kind t)"
  by (cases t)
     (simp_all add: kind_of_def commentBody_def started_title_def format_error_title_def
        failure_title_def success_title_def js_def)

lemma kind_of_systemErrorComment: "kind_of (systemErrorComment message) = None"
  by (simp add: kind_of_def systemErrorComment_def started_title_def format_error_title_def
        failure_title_def success_title_def js_def)

lemma findLastReviewComment_Some:
  assumes "findLastReviewComment lc = Some c"
  shows "user_type c = Some (js ''Bot'') \<and> test False status_marker (comment_body c)"
  using assms by (auto simp: findLastReviewComment_def find_Some_iff split: option.splits)

lemma issues_handler_edited:
  "issues_handler sv edited payload \<noteq> [] \<Longrightarrow>
     edited_retrigger (findLastReviewComment (listComments sv)) payload \<noteq> None"
  by (cases "edited_retrigger (findLastReviewComment (listComments sv)) payload")
     (auto simp: issues_handler_def split: if_splits)

lemma issues_handler_edited_None:
  "edited_retrigger (findLastReviewComment (listComments sv)) payload = None \<Longrightarrow>
     issues_handler sv edited payload = []"
  by (simp add: issues_handler_def)

text \<open>
  Claim C3, amended. An edit starts a review cycle (the handler sends a request) only
  if a bot comment carrying one of the four status marks exists, the most recent such
  comment contains neither the title of the success report nor the title of the started
  notice, and the body of the ticket has a checked re-trigger box. The kind of that
  comment is therefore neither Started nor Success, and if it is a status comment
  rendered from one of the four templates it is a format-error or a failure report.
  When the most recent such comment is a success report or a started notice, an edit
  starts no cycle, whatever the body holds.
\<close>

theorem edit_starts_cycle_only_after_failure:
  "(issues_handler sv edited payload \<noteq> [] \<longrightarrow>
      (\<exists>c b. findLastReviewComment (listComments sv) = Some c
         \<and> user_type c = Some (js ''Bot'') \<and> test False status_marker (comment_body c)
         \<and> \<not> js_includes (comment_body c) success_mark
         \<and> \<not> js_includes (comment_body c) started_title
         \<and> kind_of (comment_body c) \<noteq> Some Started \<and> kind_of (comment_body c) \<noteq> Some Success
         \<and> (\<forall>t. comment_body c = commentBody t \<longrightarrow>
               template_kind t = FormatError \<or> template_kind t = Failure)
         \<and> body payload = Some b \<and> test False checked_box b))
   \<and> (\<forall>c. findLastReviewComment (listComments sv) = Some c
          \<and> (kind_of (comment_body c) = Some Success \<or> kind_of (comment_body c) = Some Started)
        \<longrightarrow> issues_handler sv edited payload = [])"
proof (intro conjI impI allI)
  assume "issues_handler sv edited payload \<noteq> []"
  then have gate: "edited_retrigger (findLastReviewComment (listComments sv)) payload \<noteq> None"
    by (rule issues_handler_edited)
  then obtain c where c: "findLastReviewComment (listComments sv) = Some c"
    by (cases "findLastReviewComment (listComments sv)") (auto simp: edited_retrigger_def)
  from gate c have no_success: "\<not> js_includes (comment_body c) success_mark"
    and no_started: "\<not> js_includes (comment_body c) started_title"
    and box: "\<exists>b. body payload = Some b \<and> test False checked_box b"
    by (auto simp: edited_retrigger_def split: if_splits option.splits)
  from no_success have k1: "kind_of (comment_body c) \<noteq> Some Success"
    using kind_of_Success_includes by blast
  from no_started have k2: "kind_of (comment_body c) \<noteq> Some Started"
    using kind_of_Started_includes by blast
  have k3: "template_kind t = FormatError \<or> template_kind t = Failure"
    if "comment_body c = commentBody t" for t
    using k1 k2 that kind_of_commentBody [of t] by (cases "template_kind t") auto
  from c findLastReviewComment_Some [OF c] no_success no_started k1 k2 k3 box
  show "\<exists>c b. findLastReviewComment (listComments sv) = Some c
         \<and> user_type c = Some (js ''Bot'') \<and> test False status_marker (comment_body c)
         \<and> \<not> js_includes (comment_body c) success_mark
         \<and> \<not> js_includes (comment_body c) started_title
         \<and> kind_of (comment_body c) \<noteq> Some Started \<and> kind_of (comment_body c) \<noteq> Some Success
         \<and> (\<forall>t. comment_body c = commentBody t \<longrightarrow>
               template_kind t = FormatError \<or> template_kind t = Failure)
         \<and> body payload = Some b \<and> test False checked_box b"
    by blast
next
  fix c
  assume h: "findLastReviewComment (listComments sv) = Some c
          \<and> (kind_of (comment_body c) = Some Success \<or> kind_of (comment_body c) = Some Started)"
  then have "js_includes (comment_body c) success_mark \<or> js_includes (comment_body c) started_title"
    using kind_of_Success_includes kind_of_Started_includes by blast
  with h have "edited_retrigger (findLastReviewComment (listComments sv)) payload = None"
    by (auto simp: edited_retrigger_def)
  then show "issues_handler sv edited payload = []"
    by (rule issues_handler_edited_None)
qed

theorem edit_starts_cycle_only_after_failure_witness:
  "issues_handler (fixture_services [format_error_comment]) edited retrigger_issue \<noteq> []
   \<and> (\<exists>c b. findLastReviewComment (listComments (fixture_services [format_error_comment])) = Some c
         \<and> kind_of (comment_body c) \<noteq> Some Started \<and> kind_of (comment_body c) \<noteq> Some Success
         \<and> body retrigger_issue = Some b \<and> test False checked_box b)
   \<and> findLastReviewComment (listComments (fixture_services [success_comment])) = Some success_comment
   \<and> kind_of (comment_body success_comment) = Some Success
   \<and> issues_handler (fixture_services [success_comment]) edited retrigger_issue = []"
proof -
  have a: "issues_handler (fixture_services [format_error_comment]) edited retrigger_issue \<noteq> []"
    by code_simp
  have b: "findLastReviewComment (listComments (fixture_services [success_comment])) = Some success_comment"
    by code_simp
  have c: "kind_of (comment_body success_comment) = Some Success"
    by code_simp
  from edit_starts_cycle_only_after_failure
         [of "fixture_services [format_error_comment]" retrigger_issue] a
  have d: "\<exists>c b. findLastReviewComment (listComments (fixture_services [format_error_comment])) = Some c
         \<and> kind_of (comment_body c) \<noteq> Some Started \<and> kind_of (comment_body c) \<noteq> Some Success
         \<and> body retrigger_issue = Some b \<and> test False checked_box b"
    by blast
  from edit_starts_cycle_only_after_failure
         [of "fixture_services [success_comment]" retrigger_issue] b c
  have e: "issues_handler (fixture_services [success_comment]) edited retrigger_issue = []"
    by blast
  from a b c d e show ?thesis by blast
qed

text \<open>
  The comment found need not be a format-error or failure report: the system-error
  comment carries the cross mark too. After a started notice and a system-error
  comment, an edit with the box checked starts a cycle.
\<close>

theorem edit_after_system_error_counterexample:
  "issues_handler (fixture_services [started_comment, system_error_comment]) edited retrigger_issue \<noteq> []
   \<and> findLastReviewComment (Some [started_comment, system_error_comment]) = Some system_error_comment
   \<and> kind_of (comment_body system_error_comment) = None
   \<and> kind_of (comment_body started_comment) = Some Started"
  by code_simp

section \<open>Properties of the review orchestrator: a qualifying edit\<close>

lemma updateIssueBody_started [simp]: "updateIssueBodyForReviewOptions payload review_started = []"
  by (simp add: updateIssueBodyForReviewOptions_def Let_def)



lemma final_report_not_started: "final_report sv r \<noteq> review_started"
  by (cases r) (auto simp: final_report_def Let_def)




section \<open>Properties of the review orchestrator: the re-trigger section\<close>

subsection \<open>The section pattern reads a section\<close>

lemma atom_matches_Chr: "atom_matches False (Chr a) = (\<lambda>c. c = a)"
  by (rule ext) auto

lemma star_chr_str:
  assumes "w \<noteq> []" "hd w \<noteq> a"
  shows "matcher False (Rx (Star (Chr a)) # Rx (Str w) # k) s p caps =
         matcher False (Rx (Str w) # k) (dropWhile (\<lambda>c. c = a) s)
           (p + length (takeWhile (\<lambda>c. c = a) s)) caps"
proof -
  have "matcher False (Rx (Str w) # k) (c # cs) q cp = None" if "atom_matches False (Chr a) c"
    for c cs q cp
    using that assms by (cases w) auto
  from matcher_Star_disjoint [of False "Chr a" "Rx (Str w) # k", OF this]
  show ?thesis by (simp add: atom_matches_Chr)
qed

lemma star_chr_chr:
  assumes "b \<noteq> a"
  shows "matcher False (Rx (Star (Chr a)) # Rx (Atom (Chr b)) # k) s p caps =
         matcher False (Rx (Atom (Chr b)) # k) (dropWhile (\<lambda>c. c = a) s)
           (p + length (takeWhile (\<lambda>c. c = a) s)) caps"
proof -
  have "matcher False (Rx (Atom (Chr b)) # k) (c # cs) q cp = None" if "atom_matches False (Chr a) c"
    for c cs q cp
    using that assms by auto
  from matcher_Star_disjoint [of False "Chr a" "Rx (Atom (Chr b)) # k", OF this]
  show ?thesis by (simp add: atom_matches_Chr)
qed

lemma star_space_end:
  "matcher False [Rx (Star Space)] s p caps = Some (dropWhile isWhiteSpace s, caps)"
  using matcher_Star_total [of False "[]" Space s p caps] by (simp add: atom_matches_Space)

lemma star_space_close:
  "matcher False [Rx (Star Space), Close n s0] s p caps =
     Some (dropWhile isWhiteSpace s,
           caps(n \<mapsto> take (length s0 - length (dropWhile isWhiteSpace s)) s0))"
  using matcher_Star_total [of False "[Close n s0]" Space s p caps] by (simp add: atom_matches_Space)

text \<open>The optional checkbox line of the section pattern.\<close>

lemma matcher_checkbox_line:
  "map_option fst
     (matcher False
        [Rx (Star (Chr 0x000A)), Rx (Atom (Chr 0x2D)), Rx (Star Space), Rx (Atom (Chr 0x5B)),
         Rx (Atom (OneOf [0x20, 0x78, 0x58])), Rx (Atom (Chr 0x5D)), Rx (Star Space),
         Rx (Str retrigger_label), Rx (Star Space), Close n s0] t p caps)
   = parse_checkbox_line t"
proof -
  define t1 where "t1 = dropWhile (\<lambda>c. c = 0x000A) t"
  show ?thesis
  proof (cases t1)
    case Nil
    then show ?thesis
      unfolding parse_checkbox_line_def by (simp add: star_chr_chr flip: t1_def)
  next
    case (Cons d t2)
    note t1 = this
    define d2 where "d2 = dropWhile isWhiteSpace t2"
    show ?thesis
    proof (cases d2)
      case Nil
      with t1 show ?thesis
        unfolding parse_checkbox_line_def
        by (simp add: star_chr_chr star_space_chr flip: t1_def d2_def)
    next
      case (Cons b u)
      note d2 = this
      show ?thesis
      proof (cases u)
        case Nil
        with d2 t1 show ?thesis
          unfolding parse_checkbox_line_def
          by (simp add: star_chr_chr star_space_chr flip: t1_def d2_def)
      next
        case (Cons x u1)
        note u = this
        show ?thesis
        proof (cases u1)
          case Nil
          with u d2 t1 show ?thesis
            unfolding parse_checkbox_line_def
            by (simp add: star_chr_chr star_space_chr flip: t1_def d2_def)
        next
          case (Cons e t3)
          with u d2 t1 retrigger_label_hd show ?thesis
            unfolding parse_checkbox_line_def
            by (simp add: star_chr_chr star_space_chr star_space_str star_space_close
                str_matches_prefix flip: t1_def d2_def)
        qed
      qed
    qed
  qed
qed

lemma section_heading_hd: "section_heading \<noteq> [] \<and> \<not> isWhiteSpace (hd section_heading)"
  by (simp add: section_heading_def isWhiteSpace_def)

lemma hashes: "js ''##'' = [0x23, 0x23]"
  by (simp add: js_def)

lemma star_space_opt:
  "matcher False [Rx (Star Space), Rx (Opt r)] s p caps =
   matcher False [Rx (Opt r)] (dropWhile isWhiteSpace s)
     (p + length (takeWhile isWhiteSpace s)) caps"
proof -
  have "matcher False [Rx (Opt r)] u q cp \<noteq> None" for u q cp
    by (simp split: option.splits)
  from matcher_Star_total [of False "[Rx (Opt r)]" Space s p caps, OF this]
  show ?thesis by (simp add: atom_matches_Space)
qed

lemma matcher_opt_line:
  "map_option fst
     (matcher False
        [Rx (Opt (Group n
           (Seq [Star (Chr 0x000A), Atom (Chr 0x2D), Star Space, Atom (Chr 0x5B),
                 Atom (OneOf [0x20, 0x78, 0x58]), Atom (Chr 0x5D), Star Space,
                 Str retrigger_label, Star Space])))] t p caps)
   = (case parse_checkbox_line t of Some rest \<Rightarrow> Some rest | None \<Rightarrow> Some t)"
proof -
  let ?items = "[Rx (Star (Chr 0x000A)), Rx (Atom (Chr 0x2D)), Rx (Star Space), Rx (Atom (Chr 0x5B)),
         Rx (Atom (OneOf [0x20, 0x78, 0x58])), Rx (Atom (Chr 0x5D)), Rx (Star Space),
         Rx (Str retrigger_label), Rx (Star Space), Close n t]"
  have line: "map_option fst (matcher False ?items t p caps) = parse_checkbox_line t"
    by (rule matcher_checkbox_line)
  have eq: "matcher False
        [Rx (Opt (Group n
           (Seq [Star (Chr 0x000A), Atom (Chr 0x2D), Star Space, Atom (Chr 0x5B),
                 Atom (OneOf [0x20, 0x78, 0x58]), Atom (Chr 0x5D), Star Space,
                 Str retrigger_label, Star Space])))] t p caps
      = (case matcher False ?items t p caps of Some r \<Rightarrow> Some r | None \<Rightarrow> Some (t, caps))"
    by (simp only: matcher.simps(7,9,10) list.map append.simps)
       (simp only: matcher.simps(1) split: option.split)
  show ?thesis
    unfolding eq line [symmetric]
    by (cases "matcher False ?items t p caps") simp_all
qed

lemma matcher_after_heading:
  "map_option fst
     (matcher False
        [Rx (Star Space),
         Rx (Opt (Group n
           (Seq [Star (Chr 0x000A), Atom (Chr 0x2D), Star Space, Atom (Chr 0x5B),
                 Atom (OneOf [0x20, 0x78, 0x58]), Atom (Chr 0x5D), Star Space,
                 Str retrigger_label, Star Space])))] t p caps)
   = after_heading t"
  unfolding after_heading_def by (simp only: star_space_opt matcher_opt_line)

lemma matcher_from_heading:
  "map_option fst
     (matcher False
        [Rx (Str section_heading), Rx (Star Space),
         Rx (Opt (Group n
           (Seq [Star (Chr 0x000A), Atom (Chr 0x2D), Star Space, Atom (Chr 0x5B),
                 Atom (OneOf [0x20, 0x78, 0x58]), Atom (Chr 0x5D), Star Space,
                 Str retrigger_label, Star Space])))] t p caps)
   = (if prefix section_heading t then after_heading (drop (length section_heading) t) else None)"
  by (simp only: matcher.simps(3) str_matches_prefix matcher_after_heading if_distrib [of "map_option fst"]
      option.map)

lemma matcher_from_hashes:
  "map_option fst
     (matcher False
        [Rx (Str [0x23, 0x23]), Rx (Star Space), Rx (Str section_heading), Rx (Star Space),
         Rx (Opt (Group n
           (Seq [Star (Chr 0x000A), Atom (Chr 0x2D), Star Space, Atom (Chr 0x5B),
                 Atom (OneOf [0x20, 0x78, 0x58]), Atom (Chr 0x5D), Star Space,
                 Str retrigger_label, Star Space])))] t p caps)
   = (if prefix [0x23, 0x23] t \<and> prefix section_heading (dropWhile isWhiteSpace (drop 2 t))
      then after_heading (drop (length section_heading) (dropWhile isWhiteSpace (drop 2 t)))
      else None)"
proof -
  have len: "length [0x23 :: js_char, 0x23] = 2" by simp
  note ssh = star_space_str [OF section_heading_hd [THEN conjunct1]
      section_heading_hd [THEN conjunct2]]
  show ?thesis
    by (simp only: matcher.simps(3) str_matches_prefix ssh matcher_after_heading
        if_distrib [of "map_option fst"] option.map len)
       auto
qed

lemma matcher_section:
  "map_option fst (matcher False [Rx reReviewSectionRegex] s p caps) = parse_section s"
proof -
  have r: "[Rx reReviewSectionRegex] =
        [Rx (Seq [Star (Chr 0x000A), Str [0x23, 0x23], Star Space, Str section_heading, Star Space,
          Opt (Group 1
            (Seq [Star (Chr 0x000A), Atom (Chr 0x2D), Star Space, Atom (Chr 0x5B),
                  Atom (OneOf [0x20, 0x78, 0x58]), Atom (Chr 0x5D), Star Space,
                  Str retrigger_label, Star Space]))])]"
    by (simp add: reReviewSectionRegex_def hashes)
  have h1: "[0x23 :: js_char, 0x23] \<noteq> []" and h2: "hd [0x23 :: js_char, 0x23] \<noteq> 0x000A"
    by simp_all
  note sch = star_chr_str [OF h1 h2]
  have "map_option fst (matcher False [Rx reReviewSectionRegex] s p caps) =
     (if prefix [0x23, 0x23] (dropWhile (\<lambda>c. c = 0x000A) s)
         \<and> prefix section_heading
               (dropWhile isWhiteSpace (drop 2 (dropWhile (\<lambda>c. c = 0x000A) s)))
      then after_heading (drop (length section_heading)
             (dropWhile isWhiteSpace (drop 2 (dropWhile (\<lambda>c. c = 0x000A) s))))
      else None)"
    unfolding r
    by (simp only: matcher.simps(7) list.map append.simps sch matcher_from_hashes)
  then show ?thesis
    by (simp only: parse_section_def after_heading_def hashes)
qed

subsection \<open>Searching for, deleting and counting sections\<close>

lemma matcher_section_None:
  "matcher False [Rx reReviewSectionRegex] s p caps = None \<longleftrightarrow> parse_section s = None"
  using matcher_section [of s p caps]
  by (cases "matcher False [Rx reReviewSectionRegex] s p caps"; cases "parse_section s") auto

lemma matcher_section_Some:
  "matcher False [Rx reReviewSectionRegex] s p caps = Some (rest, caps') \<Longrightarrow>
   parse_section s = Some rest"
  using matcher_section [of s p caps] by simp

lemma parse_checkbox_line_length:
  "parse_checkbox_line t = Some rest \<Longrightarrow> length rest \<le> length t"
proof -
  assume a: "parse_checkbox_line t = Some rest"
  define t1 where "t1 = dropWhile (\<lambda>c. c = 0x000A) t"
  have l1: "length t1 \<le> length t" unfolding t1_def by (rule length_dropWhile_le)
  define d2 where "d2 = dropWhile isWhiteSpace (tl t1)"
  have l2: "length d2 \<le> length (tl t1)" unfolding d2_def by (rule length_dropWhile_le)
  define t3 where "t3 = drop 2 (tl d2)"
  have a': "(case t1 of [] \<Rightarrow> None
             | d # t2 \<Rightarrow> if d = 0x2D then
                 (case dropWhile isWhiteSpace t2 of [] \<Rightarrow> None
                  | b # u \<Rightarrow> if b = 0x5B then
                      (case u of x # e # t3 \<Rightarrow>
                         if (x = 0x20 \<or> x = 0x78 \<or> x = 0x58) \<and> e = 0x5D
                            \<and> prefix retrigger_label (dropWhile isWhiteSpace t3)
                         then Some (dropWhile isWhiteSpace (drop (length retrigger_label) (dropWhile isWhiteSpace t3)))
                         else None
                       | _ \<Rightarrow> None) else None) else None) = Some rest"
    using a unfolding parse_checkbox_line_def t1_def .
  have rest: "rest = dropWhile isWhiteSpace
          (drop (length retrigger_label) (dropWhile isWhiteSpace t3))"
    and l3: "length t3 \<le> length d2"
    using a' unfolding t3_def d2_def
    by (auto split: list.splits if_splits)
  have "length rest \<le> length (drop (length retrigger_label) (dropWhile isWhiteSpace t3))"
    unfolding rest by (rule length_dropWhile_le)
  also have "\<dots> \<le> length (dropWhile isWhiteSpace t3)" by simp
  also have "\<dots> \<le> length t3" by (rule length_dropWhile_le)
  finally have "length rest \<le> length t3" .
  with l1 l2 l3 show ?thesis by simp
qed

lemma parse_section_shorter:
  assumes "parse_section s = Some rest"
  shows "length rest < length s"
proof -
  define s1 where "s1 = dropWhile (\<lambda>c. c = 0x000A) s"
  define s2 where "s2 = dropWhile isWhiteSpace (drop 2 s1)"
  define s3 where "s3 = dropWhile isWhiteSpace (drop (length section_heading) s2)"
  have ps: "parse_section s =
     (if prefix (js ''##'') s1 \<and> prefix section_heading s2
      then (case parse_checkbox_line s3 of Some rest \<Rightarrow> Some rest | None \<Rightarrow> Some s3)
      else None)"
    unfolding parse_section_def s1_def s2_def s3_def ..
  from assms ps have p: "prefix (js ''##'') s1"
    and r: "(case parse_checkbox_line s3 of Some rest \<Rightarrow> Some rest | None \<Rightarrow> Some s3) = Some rest"
    by (auto split: if_splits)
  from p have "2 \<le> length s1" using prefix_length_le [of "js ''##''" s1] by (simp add: js_def)
  moreover have "length s1 \<le> length s" unfolding s1_def by (rule length_dropWhile_le)
  moreover have "length s2 \<le> length (drop 2 s1)" unfolding s2_def by (rule length_dropWhile_le)
  moreover have "length s3 \<le> length s2"
    unfolding s3_def by (rule order.trans [OF length_dropWhile_le]) simp
  moreover have "length rest \<le> length s3"
    using r parse_checkbox_line_length [of s3 rest]
    by (cases "parse_checkbox_line s3") auto
  ultimately show ?thesis by simp
qed

lemma exec_section_None:
  "exec False reReviewSectionRegex s p = None \<longleftrightarrow> (\<forall>t. suffix t s \<longrightarrow> parse_section t = None)"
proof (induction s arbitrary: p)
  case Nil
  show ?case
    using matcher_section_None [of "[]" p Map.empty]
    by (cases "matcher False [Rx reReviewSectionRegex] [] p Map.empty") auto
next
  case (Cons c cs)
  show ?case
    using matcher_section_None [of "c # cs" p Map.empty] Cons.IH [of "Suc p"]
    by (cases "matcher False [Rx reReviewSectionRegex] (c # cs) p Map.empty")
       (auto simp: suffix_Cons)
qed

lemma test_section:
  "test False reReviewSectionRegex s \<longleftrightarrow> (\<exists>t. suffix t s \<and> parse_section t \<noteq> None)"
  by (simp add: test_def exec_section_None)

lemma delete_unfold:
  "replace_all False reReviewSectionRegex [] s p =
     (case parse_section s of
        Some rest \<Rightarrow> replace_all False reReviewSectionRegex [] rest (p + (length s - length rest))
      | None \<Rightarrow>
          (case s of [] \<Rightarrow> []
           | c # cs \<Rightarrow> c # replace_all False reReviewSectionRegex [] cs (Suc p)))"
proof (cases "matcher False [Rx reReviewSectionRegex] s p Map.empty")
  case None
  then have "parse_section s = None" by (simp add: matcher_section_None)
  with None show ?thesis by (subst replace_all.simps) simp
next
  case (Some q)
  obtain rest caps where q: "q = (rest, caps)" by (cases q)
  with Some have ps: "parse_section s = Some rest" by (simp add: matcher_section_Some)
  then have "length rest < length s" by (rule parse_section_shorter)
  with Some q ps show ?thesis by (subst replace_all.simps) simp
qed

lemma count_unfold:
  "count_matches False reReviewSectionRegex s p =
     (case parse_section s of
        Some rest \<Rightarrow> Suc (count_matches False reReviewSectionRegex rest (p + (length s - length rest)))
      | None \<Rightarrow>
          (case s of [] \<Rightarrow> 0
           | c # cs \<Rightarrow> count_matches False reReviewSectionRegex cs (Suc p)))"
proof (cases "matcher False [Rx reReviewSectionRegex] s p Map.empty")
  case None
  then have "parse_section s = None" by (simp add: matcher_section_None)
  with None show ?thesis by (subst count_matches.simps) simp
next
  case (Some q)
  obtain rest caps where q: "q = (rest, caps)" by (cases q)
  with Some have ps: "parse_section s = Some rest" by (simp add: matcher_section_Some)
  then have "length rest < length s" by (rule parse_section_shorter)
  with Some q ps show ?thesis by (subst count_matches.simps) simp
qed

subsection \<open>Appending the section to a trimmed body\<close>

lemma parse_section_Some_iff:
  "parse_section s \<noteq> None \<longleftrightarrow>
     prefix (js ''##'') (dropWhile (\<lambda>c. c = 0x000A) s)
     \<and> prefix section_heading (dropWhile isWhiteSpace (drop 2 (dropWhile (\<lambda>c. c = 0x000A) s)))"
  unfolding parse_section_def by (auto split: option.splits)

lemma last_dropWhile:
  "xs \<noteq> [] \<Longrightarrow> \<not> P (last xs) \<Longrightarrow> dropWhile P xs \<noteq> [] \<and> last (dropWhile P xs) = last xs"
  by (induction xs) (auto split: if_splits)

lemma dropWhile_append_last:
  "xs \<noteq> [] \<Longrightarrow> \<not> P (last xs) \<Longrightarrow> dropWhile P (xs @ ys) = dropWhile P xs @ ys"
  by (rule dropWhile_append1 [of "last xs"]) simp_all

text \<open>
  The lemmas of this subsection are about a text \<open>Sx\<close> that begins with a line feed, whose
  first character after the white space is a hash, and that is one section as a whole;
  the section the program appends is such a text, with the box empty or ticked.
\<close>

lemma ticked_section_hd: "\<exists>S. ticked_section x = 0x000A # S"
  by (simp add: ticked_section_def)

lemma ticked_section_hash: "\<exists>S. dropWhile isWhiteSpace (ticked_section x) = 0x0023 # S"
  by (simp add: ticked_section_def js_def isWhiteSpace_def)

lemma ticked_section_whole:
  assumes "x = 0x0020 \<or> x = 0x0078 \<or> x = 0x0058"
  shows "parse_section (ticked_section x) = Some []"
proof -
  have "parse_section (ticked_section 0x0020) = Some []"
    and "parse_section (ticked_section 0x0078) = Some []"
    and "parse_section (ticked_section 0x0058) = Some []"
    by code_simp+
  with assms show ?thesis by blast
qed

lemma review_options_section_ticked: "review_options_section = ticked_section 0x0020"
  by (simp add: review_options_section_def ticked_section_def section_heading_def
        retrigger_label_def js_def)

lemma section_heading_no_newline: "0x000A \<notin> set section_heading"
  by (simp add: section_heading_def)

lemma section_heading_no_hash: "\<not> prefix section_heading (0x0023 # S)"
  by (simp add: section_heading_def)

lemma newline_isWhiteSpace: "isWhiteSpace 0x000A"
  by (simp add: isWhiteSpace_def)

lemma section_local:
  assumes u: "u \<noteq> []" and l: "\<not> isWhiteSpace (last u)"
    and sec: "parse_section (u @ Sx) \<noteq> None"
    and Sx_hd: "\<exists>S. Sx = 0x000A # S"
    and Sx_hash: "\<exists>S. dropWhile isWhiteSpace Sx = 0x0023 # S"
  shows "parse_section (u @ Y) \<noteq> None"
proof -
  define nl where "nl = (\<lambda>c :: js_char. c = 0x000A)"
  define u1 where "u1 = dropWhile nl u"
  have nl: "\<not> nl (last u)" using l newline_isWhiteSpace by (auto simp: nl_def)
  have d1: "dropWhile nl (u @ Z) = u1 @ Z" for Z
    unfolding u1_def using dropWhile_append_last [where P = nl and xs = u] u nl by simp
  have u1: "u1 \<noteq> []" "last u1 = last u"
    unfolding u1_def using last_dropWhile [where P = nl and xs = u] u nl by simp_all
  have iff: "parse_section (u @ Z) \<noteq> None \<longleftrightarrow>
      prefix [0x0023, 0x0023] (u1 @ Z)
      \<and> prefix section_heading (dropWhile isWhiteSpace (drop 2 (u1 @ Z)))" for Z
    unfolding parse_section_Some_iff nl_def [symmetric] d1 by (simp add: js_def)
  obtain S where S: "Sx = 0x000A # S"
    using Sx_hd by blast
  obtain S' where S': "dropWhile isWhiteSpace Sx = 0x0023 # S'"
    using Sx_hash by blast
  from sec have p1: "prefix [0x0023, 0x0023] (u1 @ Sx)"
    and p2: "prefix section_heading
               (dropWhile isWhiteSpace (drop 2 (u1 @ Sx)))"
    unfolding iff by simp_all
  obtain a w where aw: "u1 = a # w" using u1(1) by (cases u1) auto
  have w: "w \<noteq> []"
  proof
    assume "w = []"
    with p1 aw show False unfolding S by simp
  qed
  then obtain b v where bv: "w = b # v" by (cases w) auto
  from p1 have ab: "a = 0x0023" "b = 0x0023" unfolding aw bv by simp_all
  have dr: "drop 2 (u1 @ Z) = v @ Z" for Z by (simp add: aw bv)
  have v: "v \<noteq> []"
  proof
    assume "v = []"
    with p2 have "prefix section_heading (dropWhile isWhiteSpace Sx)"
      unfolding dr by simp
    then show False unfolding S' by (simp add: section_heading_no_hash)
  qed
  have lv: "\<not> isWhiteSpace (last v)" using l u1(2) v by (simp add: aw bv)
  define v1 where "v1 = dropWhile isWhiteSpace v"
  have d2: "dropWhile isWhiteSpace (v @ Z) = v1 @ Z" for Z
    unfolding v1_def using dropWhile_append_last [where P = isWhiteSpace and xs = v] v lv by simp
  from p2 have "prefix section_heading (v1 @ Sx)"
    unfolding dr d2 .
  then have "prefix section_heading v1"
  proof (simp only: prefix_append, elim disjE exE conjE)
    fix us assume h: "section_heading = v1 @ us" and p: "prefix us Sx"
    show "prefix section_heading v1"
    proof (cases us)
      case Nil
      with h show ?thesis by simp
    next
      case (Cons c cs)
      with p have c: "c = 0x000A" unfolding S by simp
      have "0x000A \<in> set (v1 @ us)" unfolding Cons c by simp
      then have "0x000A \<in> set section_heading" unfolding h .
      with section_heading_no_newline show ?thesis by contradiction
    qed
  qed
  then have "prefix section_heading (v1 @ Y)" by (rule prefix_prefix)
  moreover have "prefix [0x0023, 0x0023] (u1 @ Y)" by (simp add: aw bv ab)
  ultimately show ?thesis unfolding iff dr d2 by simp
qed

lemma trimEnd_decomp: "\<exists>ws. s = trimEnd s @ ws \<and> list_all isWhiteSpace ws"
proof -
  have "rev (rev s) = rev (takeWhile isWhiteSpace (rev s) @ dropWhile isWhiteSpace (rev s))"
    by (simp only: takeWhile_dropWhile_id)
  then have "s = trimEnd s @ rev (takeWhile isWhiteSpace (rev s))"
    by (simp only: rev_rev_ident rev_append trimEnd_def)
  moreover have "list_all isWhiteSpace (rev (takeWhile isWhiteSpace (rev s)))"
    by (simp add: list_all_iff) (meson set_takeWhileD)
  ultimately show ?thesis by blast
qed

lemma trimEnd_last: "trimEnd s \<noteq> [] \<Longrightarrow> \<not> isWhiteSpace (last (trimEnd s))"
  unfolding trimEnd_def
  by (metis hd_dropWhile hd_rev rev_is_Nil_conv rev_rev_ident)

lemma trim_decomp:
  "\<exists>lead trail. s = lead @ trim s @ trail"
proof -
  obtain ws where "trimStart s = trim s @ ws"
    using trimEnd_decomp [of "trimStart s"] by (auto simp: trim_def)
  moreover have "s = takeWhile isWhiteSpace s @ trimStart s" by (simp add: trimStart_def)
  ultimately show ?thesis by metis
qed

lemma trim_last: "trim s \<noteq> [] \<Longrightarrow> \<not> isWhiteSpace (last (trim s))"
  unfolding trim_def by (rule trimEnd_last)

lemma trim_hd: "trim s \<noteq> [] \<Longrightarrow> \<not> isWhiteSpace (hd (trim s))"
proof -
  assume ne: "trim s \<noteq> []"
  obtain ws where d: "trimStart s = trim s @ ws"
    using trimEnd_decomp [of "trimStart s"] by (auto simp: trim_def)
  with ne have "trimStart s \<noteq> []" by auto
  then have "\<not> isWhiteSpace (hd (trimStart s))"
    unfolding trimStart_def by (rule hd_dropWhile)
  with d ne show ?thesis by simp
qed

lemma trimEnd_id: "s \<noteq> [] \<Longrightarrow> \<not> isWhiteSpace (last s) \<Longrightarrow> trimEnd s = s"
  unfolding trimEnd_def by (cases s rule: rev_cases) simp_all

lemma trimStart_id: "s \<noteq> [] \<Longrightarrow> \<not> isWhiteSpace (hd s) \<Longrightarrow> trimStart s = s"
  unfolding trimStart_def by (cases s) simp_all

lemma trim_Nil: "trim [] = []"
  by (simp add: trim_def trimStart_def trimEnd_def)

lemma trim_trim: "trim (trim s) = trim s"
proof (cases "trim s = []")
  case True
  then show ?thesis by (simp add: trim_Nil)
next
  case False
  then show ?thesis
    using trim_hd [OF False] trim_last [OF False]
    by (simp add: trim_def [of "trim s"] trimStart_id trimEnd_id)
qed

lemma no_section_in_suffix:
  assumes none: "\<not> test False reReviewSectionRegex s"
    and suf: "suffix u (trim s)" and u: "u \<noteq> []"
    and Sx_hd: "\<exists>S. Sx = 0x000A # S"
    and Sx_hash: "\<exists>S. dropWhile isWhiteSpace Sx = 0x0023 # S"
  shows "parse_section (u @ Sx) = None"
proof (rule ccontr)
  assume sec: "parse_section (u @ Sx) \<noteq> None"
  obtain lead trail where d: "s = lead @ trim s @ trail" using trim_decomp by blast
  obtain pre where pre: "trim s = pre @ u" using suf by (auto simp: suffix_def)
  have ne: "trim s \<noteq> []" unfolding pre using u by simp
  have "last (trim s) = last u" unfolding pre using u by simp
  with trim_last [OF ne] have nws: "\<not> isWhiteSpace (last u)" by simp
  have found: "parse_section (u @ trail) \<noteq> None"
    using u nws sec Sx_hd Sx_hash by (rule section_local)
  have "s = (lead @ pre) @ (u @ trail)"
    using d [unfolded pre] by (simp only: append_assoc)
  then have "suffix (u @ trail) s" by (rule suffixI)
  with found none show False unfolding test_section by blast
qed

lemma parse_section_Nil: "parse_section [] = None"
  by code_simp

lemma delete_inserted:
  assumes "parse_section Sx = Some []"
  shows "replace_all False reReviewSectionRegex [] Sx p = []"
  by (subst delete_unfold, simp add: assms, subst delete_unfold) (simp add: parse_section_Nil)

lemma count_inserted:
  assumes "parse_section Sx = Some []"
  shows "count_matches False reReviewSectionRegex Sx p = 1"
  by (subst count_unfold, simp add: assms, subst count_unfold) (simp add: parse_section_Nil)

lemma delete_appended:
  assumes "\<forall>u. suffix u t \<and> u \<noteq> [] \<longrightarrow> parse_section (u @ Sx) = None"
    and whole: "parse_section Sx = Some []"
  shows "replace_all False reReviewSectionRegex [] (t @ Sx) p = t"
  using assms(1)
proof (induction t arbitrary: p)
  case Nil
  show ?case by (simp add: delete_inserted [OF whole])
next
  case (Cons c cs)
  have "parse_section ((c # cs) @ Sx) = None"
    using Cons.prems suffix_order.refl [of "c # cs"] by blast
  moreover have "replace_all False reReviewSectionRegex [] (cs @ Sx) (Suc p) = cs"
    using Cons.prems by (intro Cons.IH) (auto simp: suffix_Cons)
  ultimately show ?case by (subst delete_unfold) simp
qed

lemma count_appended:
  assumes "\<forall>u. suffix u t \<and> u \<noteq> [] \<longrightarrow> parse_section (u @ Sx) = None"
    and whole: "parse_section Sx = Some []"
  shows "count_matches False reReviewSectionRegex (t @ Sx) p = 1"
  using assms(1)
proof (induction t arbitrary: p)
  case Nil
  show ?case by (simp add: count_inserted [OF whole])
next
  case (Cons c cs)
  have "parse_section ((c # cs) @ Sx) = None"
    using Cons.prems suffix_order.refl [of "c # cs"] by blast
  moreover have "count_matches False reReviewSectionRegex (cs @ Sx) (Suc p) = 1"
    using Cons.prems by (intro Cons.IH) (auto simp: suffix_Cons)
  ultimately show ?case by (subst count_unfold) simp
qed

lemma test_appended:
  assumes "parse_section Sx = Some []"
  shows "test False reReviewSectionRegex (t @ Sx)"
  unfolding test_section
  by (rule exI [of _ Sx]) (simp add: assms suffix_def)

text \<open>A section found in a text is found in any text that begins with it.\<close>

lemma dropWhile_append_found:
  assumes "dropWhile P xs \<noteq> []"
  shows "dropWhile P (xs @ ys) = dropWhile P xs @ ys"
proof -
  from assms obtain x where "x \<in> set xs" "\<not> P x"
    by (auto simp: dropWhile_eq_Nil_conv)
  then show ?thesis by (rule dropWhile_append1)
qed

lemma parse_section_append:
  assumes "parse_section t \<noteq> None"
  shows "parse_section (t @ y) \<noteq> None"
proof -
  define nl where "nl = (\<lambda>c :: js_char. c = 0x000A)"
  define t1 where "t1 = dropWhile nl t"
  define t2 where "t2 = dropWhile isWhiteSpace (drop 2 t1)"
  from assms have p1: "prefix (js ''##'') t1" and p2: "prefix section_heading t2"
    unfolding parse_section_Some_iff nl_def [symmetric] t1_def t2_def by simp_all
  from p1 have len: "2 \<le> length t1"
    using prefix_length_le [of "js ''##''" t1] by (simp add: js_def)
  then have "t1 \<noteq> []" by auto
  then have d1: "dropWhile nl (t @ y) = t1 @ y"
    unfolding t1_def by (rule dropWhile_append_found)
  have dr: "drop 2 (t1 @ y) = drop 2 t1 @ y" using len by simp
  from p2 have "t2 \<noteq> []" using section_heading_hd by auto
  then have d2: "dropWhile isWhiteSpace (drop 2 t1 @ y) = t2 @ y"
    unfolding t2_def by (rule dropWhile_append_found)
  have "prefix (js ''##'') (t1 @ y)" using p1 by (rule prefix_prefix)
  moreover have "prefix section_heading (t2 @ y)" using p2 by (rule prefix_prefix)
  ultimately show ?thesis
    unfolding parse_section_Some_iff nl_def [symmetric] d1 dr d2 by simp
qed

lemma no_section_trim:
  assumes "\<not> test False reReviewSectionRegex s"
  shows "\<not> test False reReviewSectionRegex (trim s)"
proof
  assume "test False reReviewSectionRegex (trim s)"
  then obtain t where t: "suffix t (trim s)" "parse_section t \<noteq> None"
    unfolding test_section by blast
  obtain lead trail where d: "s = lead @ trim s @ trail" using trim_decomp by blast
  obtain pre where pre: "trim s = pre @ t" using t(1) by (auto simp: suffix_def)
  have "s = (lead @ pre) @ (t @ trail)"
    using d [unfolded pre] by (simp only: append_assoc)
  then have "suffix (t @ trail) s" by (rule suffixI)
  moreover have "parse_section (t @ trail) \<noteq> None" using t(2) by (rule parse_section_append)
  ultimately show False using assms unfolding test_section by blast
qed

text \<open>The number of sections is zero exactly when the search finds none.\<close>

lemma count_zero_iff:
  "count_matches False reReviewSectionRegex s p = 0 \<longleftrightarrow> (\<forall>t. suffix t s \<longrightarrow> parse_section t = None)"
proof (induction s arbitrary: p)
  case Nil
  show ?case by (subst count_unfold) (simp add: parse_section_Nil)
next
  case (Cons c cs)
  show ?case
  proof (cases "parse_section (c # cs)")
    case None
    then show ?thesis
      using Cons.IH [of "Suc p"] by (subst count_unfold) (auto simp: suffix_Cons)
  next
    case (Some rest)
    then have "count_matches False reReviewSectionRegex (c # cs) p \<noteq> 0"
      by (subst count_unfold) simp
    moreover have "\<not> (\<forall>t. suffix t (c # cs) \<longrightarrow> parse_section t = None)"
      using Some suffix_order.refl [of "c # cs"] by (metis option.distinct(1))
    ultimately show ?thesis by blast
  qed
qed

lemma count_zero_test:
  "count_matches False reReviewSectionRegex s 0 = 0 \<longleftrightarrow> \<not> test False reReviewSectionRegex s"
  by (simp add: count_zero_iff test_section)

subsection \<open>The requests of a review cycle\<close>

lemma comment_texts_append: "comment_texts (xs @ ys) = comment_texts xs @ comment_texts ys"
  by (induction xs rule: comment_texts.induct) simp_all

lemma body_after_append: "body_after b (xs @ ys) = body_after (body_after b xs) ys"
  by (induction b xs rule: body_after.induct) simp_all

lemma comment_texts_update: "comment_texts (updateIssueBodyForReviewOptions payload t) = []"
  by (cases t) (simp_all add: updateIssueBodyForReviewOptions_def Let_def)

lemma postOrUpdateComment_calls:
  "\<exists>c. fst (postOrUpdateComment cr payload t u cid) = c # updateIssueBodyForReviewOptions payload t
       \<and> comment_texts [c] = [commentBody t] \<and> (\<forall>b. body_after b [c] = b)"
  by (cases cid) (auto simp: postOrUpdateComment_def Let_def)

lemma review_cycle_outcome:
  obtains (thrown) "ended_in (review_cycle sv payload isUpdate cid) = None"
      "\<And>b. body_after b (review_cycle sv payload isUpdate cid) = b"
  | (reported) t where "t \<noteq> review_started"
      "ended_in (review_cycle sv payload isUpdate cid) = Some (template_kind t)"
      "\<And>b. body_after b (review_cycle sv payload isUpdate cid) =
             body_after b (updateIssueBodyForReviewOptions payload t)"
proof -
  obtain c1 where c1: "fst (postOrUpdateComment (created sv) payload review_started isUpdate cid) = [c1]"
    "comment_texts [c1] = [commentBody review_started]" "\<And>b. body_after b [c1] = b"
    using postOrUpdateComment_calls [of "created sv" payload review_started isUpdate cid]
    by auto
  define cur where "cur = snd (postOrUpdateComment (created sv) payload review_started isUpdate cid)"
  have rep: ?thesis
    if eq: "review_cycle sv payload isUpdate cid =
              [c1] @ fst (postOrUpdateComment (created sv) payload t True cur)"
      and t: "t \<noteq> review_started" for t
  proof -
    obtain c2 where c2: "fst (postOrUpdateComment (created sv) payload t True cur) =
          c2 # updateIssueBodyForReviewOptions payload t"
      "comment_texts [c2] = [commentBody t]" "\<And>b. body_after b [c2] = b"
      using postOrUpdateComment_calls [of "created sv" payload t True cur] by auto
    have e: "review_cycle sv payload isUpdate cid =
        [c1] @ [c2] @ updateIssueBodyForReviewOptions payload t"
      unfolding eq c2 by simp
    have "ended_in (review_cycle sv payload isUpdate cid) = Some (template_kind t)"
      unfolding e ended_in_def comment_texts_append c1 c2 comment_texts_update
      by (simp add: kind_of_commentBody)
    moreover have "body_after b (review_cycle sv payload isUpdate cid) =
             body_after b (updateIssueBodyForReviewOptions payload t)" for b
      unfolding e body_after_append c1 c2 ..
    ultimately show ?thesis using t by (rule reported [rotated])
  qed
  show ?thesis
  proof (cases "validateIssueFormat (JSON_parse sv) (URL sv) payload")
    case (Inl message)
    have e: "review_cycle sv payload isUpdate cid = [c1] @ [CreateComment (systemErrorComment message)]"
      using Inl c1(1) by (simp add: review_cycle_def handlePluginReview_def Let_def)
    have "ended_in (review_cycle sv payload isUpdate cid) = None"
      unfolding e ended_in_def comment_texts_append c1
      by (simp add: kind_of_systemErrorComment)
    moreover have "body_after b (review_cycle sv payload isUpdate cid) = b" for b
      unfolding e body_after_append c1 by simp
    ultimately show ?thesis by (rule thrown)
  next
    case (Inr res)
    show ?thesis
    proof (cases res)
      case (Format_failure errors)
      show ?thesis
        by (rule rep [of "format_error errors"])
           (simp_all add: Inr Format_failure review_cycle_def handlePluginReview_def Let_def c1(1)
              cur_def)
    next
      case (Format_success pluginData)
      show ?thesis
      proof (cases "success (reviewPlugin (URL sv) (performAIReview sv) pluginData)")
        case True
        show ?thesis
          by (rule rep [of "review_success (name pluginData)
                 (review (reviewPlugin (URL sv) (performAIReview sv) pluginData))"])
             (simp_all add: Inr Format_success True review_cycle_def handlePluginReview_def
                Let_def c1(1) cur_def)
      next
        case False
        show ?thesis
          by (rule rep [of "review_failure
                 (error (reviewPlugin (URL sv) (performAIReview sv) pluginData))"])
             (simp_all add: Inr Format_success False review_cycle_def handlePluginReview_def
                Let_def c1(1) cur_def)
      qed
    qed
  qed
qed

lemma appended_section:
  assumes none: "\<not> test False reReviewSectionRegex s"
    and Sx_hd: "\<exists>S. Sx = 0x000A # S"
    and Sx_hash: "\<exists>S. dropWhile isWhiteSpace Sx = 0x0023 # S"
    and whole: "parse_section Sx = Some []"
  shows "count_matches False reReviewSectionRegex (trim s @ Sx) 0 = 1"
    and "replace False reReviewSectionRegex [] (trim s @ Sx) = trim s"
proof -
  have clear: "\<forall>u. suffix u (trim s) \<and> u \<noteq> [] \<longrightarrow> parse_section (u @ Sx) = None"
    using no_section_in_suffix [OF none _ _ Sx_hd Sx_hash] by blast
  show "count_matches False reReviewSectionRegex (trim s @ Sx) 0 = 1"
    using clear whole by (rule count_appended)
  show "replace False reReviewSectionRegex [] (trim s @ Sx) = trim s"
    unfolding replace_def using clear whole by (rule delete_appended)
qed

lemma body_after_update:
  "body_after before (updateIssueBodyForReviewOptions payload t) =
     (case t of
        review_started \<Rightarrow> before
      | format_error errors \<Rightarrow>
          if test False reReviewSectionRegex (or_else (body payload) []) then before
          else trim (or_else (body payload) []) @ review_options_section
      | review_failure e \<Rightarrow>
          if test False reReviewSectionRegex (or_else (body payload) []) then before
          else trim (or_else (body payload) []) @ review_options_section
      | review_success n r \<Rightarrow>
          if test False reReviewSectionRegex (or_else (body payload) [])
          then trim (replace False reReviewSectionRegex [] (or_else (body payload) []))
          else before)"
  by (cases t) (simp_all add: updateIssueBodyForReviewOptions_def Let_def)

lemma count_pos_test:
  "0 < count_matches False reReviewSectionRegex s 0 \<longleftrightarrow> test False reReviewSectionRegex s"
  using count_zero_test [of s] by auto

lemma inserted_section_counted:
  assumes "count_matches False reReviewSectionRegex s 0 = 0"
  shows "count_matches False reReviewSectionRegex (trim s @ review_options_section) 0 = 1"
proof -
  from assms have "\<not> test False reReviewSectionRegex s" by (simp add: count_zero_test)
  then show ?thesis
    unfolding review_options_section_ticked
    by (rule appended_section(1) [OF _ ticked_section_hd ticked_section_hash ticked_section_whole])
       simp
qed

lemma ticked_section_deleted:
  assumes "count_matches False reReviewSectionRegex s 0 = 0"
    and "x = 0x0020 \<or> x = 0x0078 \<or> x = 0x0058"
  shows "test False reReviewSectionRegex (trim s @ ticked_section x)"
    and "trim (replace False reReviewSectionRegex [] (trim s @ ticked_section x)) = trim s"
    and "count_matches False reReviewSectionRegex (trim s) 0 = 0"
proof -
  from assms(1) have none: "\<not> test False reReviewSectionRegex s" by (simp add: count_zero_test)
  note whole = ticked_section_whole [OF assms(2)]
  show "test False reReviewSectionRegex (trim s @ ticked_section x)"
    using whole by (rule test_appended)
  have "replace False reReviewSectionRegex [] (trim s @ ticked_section x) = trim s"
    using none ticked_section_hd ticked_section_hash whole by (rule appended_section(2))
  then show "trim (replace False reReviewSectionRegex [] (trim s @ ticked_section x)) = trim s"
    by (simp add: trim_trim)
  show "count_matches False reReviewSectionRegex (trim s) 0 = 0"
    using no_section_trim [OF none] by (simp add: count_zero_test)
qed

text \<open>
  Claim C5, amended. Let \<open>B\<close> be the body the event carried and \<open>before\<close> the body of the
  ticket when the review cycle starts. A section is a match of the section pattern: the
  heading, with or without a checkbox line. After a cycle ending in FormatError or
  Failure: if \<open>B\<close> has no section, the body of the ticket is the trimmed \<open>B\<close> followed by
  the section with an unchecked box, and it has exactly one section; if \<open>B\<close> has a
  section, one or several, no request changes the body. After a cycle ending in Success:
  if \<open>B\<close> has no section, no request changes the body; if \<open>B\<close> is a trimmed text without a
  section followed by the section the program appends, with the box empty or ticked, the
  body is that text and has no section; in general, if \<open>B\<close> has a section, the body is
  \<open>B\<close> with every section that a search from left to right finds deleted, and trimmed.
  A cycle that ends otherwise, with a system error, changes nothing in the body.
\<close>

theorem review_options_lifecycle:
  "((ended_in (review_cycle sv payload isUpdate commentId) = Some FormatError
     \<or> ended_in (review_cycle sv payload isUpdate commentId) = Some Failure) \<longrightarrow>
      (count_matches False reReviewSectionRegex (or_else (body payload) []) 0 = 0 \<longrightarrow>
         body_after before (review_cycle sv payload isUpdate commentId) =
           trim (or_else (body payload) []) @ review_options_section
         \<and> count_matches False reReviewSectionRegex
             (body_after before (review_cycle sv payload isUpdate commentId)) 0 = 1)
    \<and> (0 < count_matches False reReviewSectionRegex (or_else (body payload) []) 0 \<longrightarrow>
         body_after before (review_cycle sv payload isUpdate commentId) = before))
   \<and> (ended_in (review_cycle sv payload isUpdate commentId) = Some Success \<longrightarrow>
      (count_matches False reReviewSectionRegex (or_else (body payload) []) 0 = 0 \<longrightarrow>
         body_after before (review_cycle sv payload isUpdate commentId) = before)
    \<and> (\<forall>kept x. or_else (body payload) [] = trim kept @ ticked_section x
           \<and> count_matches False reReviewSectionRegex kept 0 = 0
           \<and> (x = 0x0020 \<or> x = 0x0078 \<or> x = 0x0058) \<longrightarrow>
         body_after before (review_cycle sv payload isUpdate commentId) = trim kept
         \<and> count_matches False reReviewSectionRegex
             (body_after before (review_cycle sv payload isUpdate commentId)) 0 = 0)
    \<and> (0 < count_matches False reReviewSectionRegex (or_else (body payload) []) 0 \<longrightarrow>
         body_after before (review_cycle sv payload isUpdate commentId) =
           trim (replace False reReviewSectionRegex [] (or_else (body payload) []))))
   \<and> (ended_in (review_cycle sv payload isUpdate commentId) \<noteq> Some FormatError
      \<and> ended_in (review_cycle sv payload isUpdate commentId) \<noteq> Some Failure
      \<and> ended_in (review_cycle sv payload isUpdate commentId) \<noteq> Some Success \<longrightarrow>
      body_after before (review_cycle sv payload isUpdate commentId) = before)"
proof -
  let ?B = "or_else (body payload) []"
  let ?calls = "review_cycle sv payload isUpdate commentId"
  let ?count = "\<lambda>b. count_matches False reReviewSectionRegex b 0"
  have ins: "?count (trim ?B @ review_options_section) = 1" if "?count ?B = 0"
    using that by (rule inserted_section_counted)
  have del: "test False reReviewSectionRegex ?B
      \<and> trim (replace False reReviewSectionRegex [] ?B) = trim kept
      \<and> ?count (trim kept) = 0"
    if "?B = trim kept @ ticked_section x \<and> ?count kept = 0
        \<and> (x = 0x0020 \<or> x = 0x0078 \<or> x = 0x0058)" for kept x
    using that ticked_section_deleted [of kept x] by simp
  show ?thesis
  proof (cases rule: review_cycle_outcome [of sv payload isUpdate commentId])
    case thrown
    then show ?thesis by simp
  next
    case (reported t)
    show ?thesis
    proof (cases t)
      case review_started
      with reported(1) show ?thesis by simp
    next
      case (format_error errors)
      with reported ins show ?thesis
        by (simp add: body_after_update count_zero_test count_pos_test)
    next
      case (review_failure e)
      with reported ins show ?thesis
        by (simp add: body_after_update count_zero_test count_pos_test)
    next
      case (review_success n r)
      have a: "body_after before ?calls = before" if "?count ?B = 0"
        using that reported review_success
        by (simp add: body_after_update count_zero_test)
      have c: "body_after before ?calls = trim (replace False reReviewSectionRegex [] ?B)"
        if "test False reReviewSectionRegex ?B"
        using that reported review_success by (simp add: body_after_update)
      have b: "body_after before ?calls = trim kept \<and> ?count (body_after before ?calls) = 0"
        if "?B = trim kept @ ticked_section x \<and> ?count kept = 0
            \<and> (x = 0x0020 \<or> x = 0x0078 \<or> x = 0x0058)" for kept x
        using del [OF that] c by simp
      have e: "ended_in ?calls = Some Success"
        using reported(2) review_success by simp
      from a b c show ?thesis unfolding e count_pos_test by auto
    qed
  qed
qed

theorem review_options_lifecycle_witness:
  "ended_in (review_cycle (fixture_services []) retrigger_issue False None) = Some FormatError
   \<and> count_matches False reReviewSectionRegex (js ''- [x] '' @ retrigger_label) 0 = 0
   \<and> body_after (js ''- [x] '' @ retrigger_label)
        (review_cycle (fixture_services []) retrigger_issue False None) =
       js ''- [x] '' @ retrigger_label @ review_options_section
   \<and> count_matches False reReviewSectionRegex
        (body_after (js ''- [x] '' @ retrigger_label)
           (review_cycle (fixture_services []) retrigger_issue False None)) 0 = 1
   \<and> ended_in (review_cycle approving_services resubmission False None) = Some Success
   \<and> count_matches False reReviewSectionRegex submission_body 0 = 0
   \<and> body_after (submission_body @ review_options_section)
        (review_cycle approving_services resubmission False None) = submission_body
   \<and> count_matches False reReviewSectionRegex
        (body_after (submission_body @ review_options_section)
           (review_cycle approving_services resubmission False None)) 0 = 0"
proof -
  have e: "ended_in (review_cycle (fixture_services []) retrigger_issue False None) = Some FormatError"
    by code_simp
  have b: "or_else (body retrigger_issue) [] = js ''- [x] '' @ retrigger_label"
    by code_simp
  have n: "count_matches False reReviewSectionRegex (js ''- [x] '' @ retrigger_label) 0 = 0"
    by code_simp
  have t: "trim (js ''- [x] '' @ retrigger_label) = js ''- [x] '' @ retrigger_label"
    by code_simp
  have e': "ended_in (review_cycle approving_services resubmission False None) = Some Success"
    by code_simp
  have b': "or_else (body resubmission) [] = trim submission_body @ ticked_section 0x0020"
    by code_simp
  have n': "count_matches False reReviewSectionRegex submission_body 0 = 0"
    by code_simp
  have t': "trim submission_body = submission_body"
    by code_simp
  note failed = review_options_lifecycle
    [of "fixture_services []" retrigger_issue False None "js ''- [x] '' @ retrigger_label",
     THEN conjunct1, unfolded e b, simplified, THEN conjunct1, rule_format, OF n, unfolded t]
  note succeeded = review_options_lifecycle
    [of approving_services resubmission False None "submission_body @ review_options_section",
     THEN conjunct2, THEN conjunct1, rule_format, OF e', THEN conjunct2, THEN conjunct1,
     rule_format, of submission_body "0x0020", unfolded t']
  have s: "body_after (submission_body @ review_options_section)
        (review_cycle approving_services resubmission False None) = submission_body
     \<and> count_matches False reReviewSectionRegex
        (body_after (submission_body @ review_options_section)
           (review_cycle approving_services resubmission False None)) 0 = 0"
    using b' n' by (intro succeeded) (simp add: t')
  note f1 = failed [THEN conjunct1, unfolded append_assoc]
  note f2 = failed [THEN conjunct2, folded One_nat_def]
  from e n f1 f2 e' n' s show ?thesis by blast
qed

text \<open>
  Three tickets. The first is opened with the section twice in its body and no
  submission: the cycle ends in FormatError and the body still holds two sections. The
  second is opened with a valid submission followed by a lone hash, the section heading
  and the same heading with one hash: the cycle ends in Success, and the body it leaves
  ends with the heading formed by the two hashes on either side of the deleted section,
  so that it holds a section. The third is opened with the heading alone and no
  submission: the cycle ends in FormatError and the body has no checkbox.
\<close>

theorem section_lifecycle_counterexample:
  "ended_in (review_cycle (fixture_services []) duplicated_issue False None) = Some FormatError
   \<and> body_after duplicated_sections (review_cycle (fixture_services []) duplicated_issue False None)
       = duplicated_sections
   \<and> count_matches False reReviewSectionRegex duplicated_sections 0 = 2
   \<and> ended_in (review_cycle approving_services rejoining_issue False None) = Some Success
   \<and> body_after rejoining_body (review_cycle approving_services rejoining_issue False None) =
       submission_body @ [0x000A, 0x000A] @ js ''## '' @ section_heading
   \<and> count_matches False reReviewSectionRegex
        (body_after rejoining_body (review_cycle approving_services rejoining_issue False None)) 0 = 1
   \<and> ended_in (review_cycle (fixture_services []) heading_only_issue False None) = Some FormatError
   \<and> body_after (js ''## '' @ section_heading)
        (review_cycle (fixture_services []) heading_only_issue False None) = js ''## '' @ section_heading
   \<and> \<not> js_includes (js ''## '' @ section_heading) retrigger_label"
  by code_simp
section \<open>Properties of the submission format validator\<close>

lemma field_errors_empty:
  assumes "field_errors parseURL pd = []"
  shows "truthy (name pd) \<and> name pd \<noteq> Some placeholder_name
       \<and> truthy (desc pd) \<and> desc pd \<noteq> Some placeholder_desc
       \<and> truthy (repo pd)
       \<and> (\<exists>u. parseURL (str (repo pd)) = Some u \<and> hostname u = js ''github.com'')"
  using assms by (auto simp: field_errors_def split: if_splits option.splits)

lemma validateIssueFormat_success:
  assumes "validateIssueFormat parseJSON parseURL payload = Inr (Format_success pd)"
  shows "field_errors parseURL pd = []"
  using assms
  by (auto simp: validateIssueFormat_def Let_def split: option.splits if_splits json.splits)

lemma reviewPlugin_parsed:
  assumes "parseURL (str (repo pd)) = Some u"
  shows "reviewPlugin parseURL perf pd =
      (case filter (\<lambda>segment. segment \<noteq> []) (split 0x002F (pathname u)) of
         owner # repository # others \<Rightarrow>
           (case perf owner repository of
              Inl message \<Rightarrow>
                failure (js ''An error occurred while fetching or analyzing code: '' @ message)
            | Inr result \<Rightarrow> result)
       | _ \<Rightarrow> failure (js ''Invalid repository URL. Could not parse owner and repo.''))"
  using assms by (simp add: reviewPlugin_def)

text \<open>
  Claim C8, amended. When the validator returns success, the name and the description
  are present and are not the placeholders, and the repository URL parses with the host
  \<open>github.com\<close>. The validator does not look at the path: \<open>reviewPlugin\<close> parses the URL
  again and splits the path; with at least two non-empty segments it runs the review on
  the first two as owner and repository, and otherwise it returns the failure
  \<open>Invalid repository URL. Could not parse owner and repo.\<close>
\<close>

theorem validated_submission:
  "validateIssueFormat parseJSON parseURL payload = Inr (Format_success pd) \<longrightarrow>
     truthy (name pd) \<and> name pd \<noteq> Some placeholder_name
     \<and> truthy (desc pd) \<and> desc pd \<noteq> Some placeholder_desc
     \<and> truthy (repo pd)
     \<and> (\<exists>u. parseURL (str (repo pd)) = Some u \<and> hostname u = js ''github.com''
          \<and> reviewPlugin parseURL perf pd =
             (case filter (\<lambda>segment. segment \<noteq> []) (split 0x002F (pathname u)) of
                owner # repository # others \<Rightarrow>
                  (case perf owner repository of
                     Inl message \<Rightarrow>
                       failure (js ''An error occurred while fetching or analyzing code: '' @ message)
                   | Inr result \<Rightarrow> result)
              | _ \<Rightarrow> failure (js ''Invalid repository URL. Could not parse owner and repo.'')))"
proof
  assume ok: "validateIssueFormat parseJSON parseURL payload = Inr (Format_success pd)"
  then have "field_errors parseURL pd = []" by (rule validateIssueFormat_success)
  then have f: "truthy (name pd) \<and> name pd \<noteq> Some placeholder_name
       \<and> truthy (desc pd) \<and> desc pd \<noteq> Some placeholder_desc
       \<and> truthy (repo pd)
       \<and> (\<exists>u. parseURL (str (repo pd)) = Some u \<and> hostname u = js ''github.com'')"
    by (rule field_errors_empty)
  then obtain u where u: "parseURL (str (repo pd)) = Some u" "hostname u = js ''github.com''"
    by blast
  from f u reviewPlugin_parsed [where parseURL = parseURL and pd = pd and u = u and perf = perf]
  show "truthy (name pd) \<and> name pd \<noteq> Some placeholder_name
     \<and> truthy (desc pd) \<and> desc pd \<noteq> Some placeholder_desc
     \<and> truthy (repo pd)
     \<and> (\<exists>u. parseURL (str (repo pd)) = Some u \<and> hostname u = js ''github.com''
          \<and> reviewPlugin parseURL perf pd =
             (case filter (\<lambda>segment. segment \<noteq> []) (split 0x002F (pathname u)) of
                owner # repository # others \<Rightarrow>
                  (case perf owner repository of
                     Inl message \<Rightarrow>
                       failure (js ''An error occurred while fetching or analyzing code: '' @ message)
                   | Inr result \<Rightarrow> result)
              | _ \<Rightarrow> failure (js ''Invalid repository URL. Could not parse owner and repo.'')))"
    by blast
qed

theorem validated_submission_witness:
  "validateIssueFormat fixture_JSON https_URL submission = Inr (Format_success acme_foo)
   \<and> truthy (name acme_foo) \<and> truthy (desc acme_foo)
   \<and> https_URL (str (repo acme_foo)) = Some \<lparr>hostname = js ''github.com'', pathname = js ''/acme/foo''\<rparr>
   \<and> reviewPlugin https_URL (\<lambda>owner repository. Inl (owner @ js '' '' @ repository)) acme_foo =
       failure (js ''An error occurred while fetching or analyzing code: acme foo'')"
proof -
  have v: "validateIssueFormat fixture_JSON https_URL submission = Inr (Format_success acme_foo)"
    by code_simp
  have u: "https_URL (str (repo acme_foo)) = Some \<lparr>hostname = js ''github.com'', pathname = js ''/acme/foo''\<rparr>"
    by code_simp
  have s: "filter (\<lambda>segment. segment \<noteq> []) (split 0x002F (js ''/acme/foo'')) = [js ''acme'', js ''foo'']"
    by code_simp
  from validated_submission [of fixture_JSON https_URL submission acme_foo
      "\<lambda>owner repository. Inl (owner @ js '' '' @ repository)"] v u s
  show ?thesis by (simp add: js_def)
qed

text \<open>
  A submission whose repository is \<open>https://github.com/\<close> passes the validator, and the
  pipeline then fails to find an owner and a repository in it.
\<close>

theorem validated_rootless_counterexample:
  "validateIssueFormat fixture_JSON https_URL rootless_submission = Inr (Format_success rootless)
   \<and> https_URL (str (repo rootless)) = Some \<lparr>hostname = js ''github.com'', pathname = js ''/''\<rparr>
   \<and> reviewPlugin https_URL (\<lambda>owner repository. Inr \<lparr>success = True, review = Some [], error = None\<rparr>)
        rootless =
       failure (js ''Invalid repository URL. Could not parse owner and repo.'')"
  by code_simp

end
